theory Spec2Isabelle
  imports Main
begin

section \<open>goblib::stdmap: a std::map look-alike over a sorted std::vector\<close>

text \<open>
  The development follows \<^verbatim>\<open>src/src/gob_stdmap.hpp\<close>. The class owns a vector
  \<^verbatim>\<open>_v\<close> of (key, value) pairs and a key comparator \<^verbatim>\<open>_compare_key\<close>; the
  member \<^verbatim>\<open>_compare_value\<close> is a \<^verbatim>\<open>ValueCompare\<close> that holds a copy of that
  comparator and applies it to the first components. Iterators into the vector are
  modelled as offsets from \<^verbatim>\<open>begin()\<close>, so \<^verbatim>\<open>end()\<close> is the length of the vector.
  Allocators and capacity play no role in the contents and are left out.
\<close>

subsection \<open>Data\<close>

record ('k, 'v) stdmap =
  vec :: "('k \<times> 'v) list"
  compare_key :: "'k \<Rightarrow> 'k \<Rightarrow> bool"

text \<open>\<^verbatim>\<open>ValueCompare::operator()\<close>: \<^verbatim>\<open>cmp(a.first, b.first)\<close>.\<close>

definition compare_value :: "('k, 'v) stdmap \<Rightarrow> 'k \<times> 'v \<Rightarrow> 'k \<times> 'v \<Rightarrow> bool" where
  "compare_value m a b = compare_key m (fst a) (fst b)"

definition ne_key :: "('k, 'v) stdmap \<Rightarrow> 'k \<Rightarrow> 'k \<Rightarrow> bool" where
  "ne_key m a b = (compare_key m a b \<or> compare_key m b a)"

definition eq_key :: "('k, 'v) stdmap \<Rightarrow> 'k \<Rightarrow> 'k \<Rightarrow> bool" where
  "eq_key m a b = (\<not> ne_key m a b)"

definition begin_m :: "('k, 'v) stdmap \<Rightarrow> nat" where
  "begin_m m = 0"

definition end_m :: "('k, 'v) stdmap \<Rightarrow> nat" where
  "end_m m = length (vec m)"

definition size_m :: "('k, 'v) stdmap \<Rightarrow> nat" where
  "size_m m = length (vec m)"

subsection \<open>The pieces of the standard library that the class calls\<close>

text \<open>
  \<^verbatim>\<open>std::lower_bound(first, last, value, comp)\<close> and \<^verbatim>\<open>std::upper_bound\<close> of
  \<^verbatim>\<open><algorithm>\<close>, as the halving loop that libstdc++ and libc++ both run:
  \<^verbatim>\<open>len = last - first; while (len > 0) { half = len >> 1; middle = first + half; ... }\<close>.
  The loop only reads slots in \<^verbatim>\<open>[first, last)\<close>.
\<close>

function lower_bound_loop :: "'a list \<Rightarrow> 'b \<Rightarrow> ('a \<Rightarrow> 'b \<Rightarrow> bool) \<Rightarrow> nat \<Rightarrow> nat \<Rightarrow> nat" where
  "lower_bound_loop xs val cmp first len =
     (if 0 < len then
        (let half = len div 2; middle = first + half in
         if cmp (xs ! middle) val
         then lower_bound_loop xs val cmp (middle + 1) (len - half - 1)
         else lower_bound_loop xs val cmp first half)
      else first)"
  by pat_completeness auto
termination
  by (relation "measure (\<lambda>(xs, val, cmp, first, len). len)") auto

definition std_lower_bound :: "'a list \<Rightarrow> nat \<Rightarrow> nat \<Rightarrow> 'b \<Rightarrow> ('a \<Rightarrow> 'b \<Rightarrow> bool) \<Rightarrow> nat" where
  "std_lower_bound xs first lastp val cmp = lower_bound_loop xs val cmp first (lastp - first)"

function upper_bound_loop :: "'a list \<Rightarrow> 'b \<Rightarrow> ('b \<Rightarrow> 'a \<Rightarrow> bool) \<Rightarrow> nat \<Rightarrow> nat \<Rightarrow> nat" where
  "upper_bound_loop xs val cmp first len =
     (if 0 < len then
        (let half = len div 2; middle = first + half in
         if cmp val (xs ! middle)
         then upper_bound_loop xs val cmp first half
         else upper_bound_loop xs val cmp (middle + 1) (len - half - 1))
      else first)"
  by pat_completeness auto
termination
  by (relation "measure (\<lambda>(xs, val, cmp, first, len). len)") auto

definition std_upper_bound :: "'a list \<Rightarrow> nat \<Rightarrow> nat \<Rightarrow> 'b \<Rightarrow> ('b \<Rightarrow> 'a \<Rightarrow> bool) \<Rightarrow> nat" where
  "std_upper_bound xs first lastp val cmp = upper_bound_loop xs val cmp first (lastp - first)"

text \<open>
  \<^verbatim>\<open>vector::insert(pos, x)\<close> and \<^verbatim>\<open>vector::emplace(pos, x)\<close> open a slot in front of
  \<^verbatim>\<open>pos\<close> and return \<^verbatim>\<open>pos\<close>; \<^verbatim>\<open>vector::erase(first, last)\<close> closes the slots
  \<^verbatim>\<open>[first, last)\<close> and returns \<^verbatim>\<open>first\<close>.
\<close>

definition vector_insert :: "'a list \<Rightarrow> nat \<Rightarrow> 'a \<Rightarrow> 'a list" where
  "vector_insert xs pos x = take pos xs @ x # drop pos xs"

definition vector_erase :: "'a list \<Rightarrow> nat \<Rightarrow> nat \<Rightarrow> 'a list" where
  "vector_erase xs first lastp = take first xs @ drop lastp xs"

subsection \<open>Constructors and assignment\<close>

text \<open>\<^verbatim>\<open>explicit stdmap(const Compare& comp, ...)\<close>: an empty vector.\<close>

definition stdmap_empty :: "('k \<Rightarrow> 'k \<Rightarrow> bool) \<Rightarrow> ('k, 'v) stdmap" where
  "stdmap_empty cmp = \<lparr>vec = [], compare_key = cmp\<rparr>"

text \<open>
  \<^verbatim>\<open>stdmap(InputIterator first, InputIterator last, comp, alloc) : _v(first, last, alloc), ...\<close>:
  the vector is built by the vector's own range constructor, a copy of the range.
\<close>

definition stdmap_range :: "('k \<times> 'v) list \<Rightarrow> ('k \<Rightarrow> 'k \<Rightarrow> bool) \<Rightarrow> ('k, 'v) stdmap" where
  "stdmap_range rng cmp = \<lparr>vec = rng, compare_key = cmp\<rparr>"

text \<open>\<^verbatim>\<open>stdmap(std::initializer_list<value_type> init, comp, alloc) : stdmap(init.begin(), init.end(), comp, alloc)\<close>.\<close>

definition stdmap_init_list :: "('k \<times> 'v) list \<Rightarrow> ('k \<Rightarrow> 'k \<Rightarrow> bool) \<Rightarrow> ('k, 'v) stdmap" where
  "stdmap_init_list init cmp = stdmap_range init cmp"

text \<open>\<^verbatim>\<open>operator=(std::initializer_list<value_type> il) { _v = il; return *this; }\<close>.\<close>

definition assign_init_list :: "('k, 'v) stdmap \<Rightarrow> ('k \<times> 'v) list \<Rightarrow> ('k, 'v) stdmap" where
  "assign_init_list m il = m\<lparr>vec := il\<rparr>"

subsection \<open>Lookup\<close>

definition lower_bound_impl :: "('k, 'v) stdmap \<Rightarrow> 'k \<Rightarrow> nat" where
  "lower_bound_impl m key =
     std_lower_bound (vec m) (begin_m m) (end_m m) key (\<lambda>pair k. compare_key m (fst pair) k)"

definition upper_bound_impl :: "('k, 'v) stdmap \<Rightarrow> 'k \<Rightarrow> nat" where
  "upper_bound_impl m key =
     std_upper_bound (vec m) (begin_m m) (end_m m) key (\<lambda>k pair. compare_key m k (fst pair))"

definition lower_bound :: "('k, 'v) stdmap \<Rightarrow> 'k \<Rightarrow> nat" where
  "lower_bound m key = lower_bound_impl m key"

definition upper_bound :: "('k, 'v) stdmap \<Rightarrow> 'k \<Rightarrow> nat" where
  "upper_bound m key = upper_bound_impl m key"

definition equal_range :: "('k, 'v) stdmap \<Rightarrow> 'k \<Rightarrow> nat \<times> nat" where
  "equal_range m key = (lower_bound m key, upper_bound m key)"

definition find_m :: "('k, 'v) stdmap \<Rightarrow> 'k \<Rightarrow> nat" where
  "find_m m key =
     (let it = std_lower_bound (vec m) (begin_m m) (end_m m) key
                 (\<lambda>pair k. compare_key m (fst pair) k)
      in if it \<noteq> end_m m \<and> eq_key m (fst (vec m ! it)) key then it else end_m m)"

definition count_m :: "('k, 'v) stdmap \<Rightarrow> 'k \<Rightarrow> nat" where
  "count_m m key = (if find_m m key \<noteq> end_m m then 1 else 0)"

subsection \<open>Element access\<close>

text \<open>
  \<^verbatim>\<open>at_impl\<close> ends in \<^verbatim>\<open>throw std::out_of_range\<close> when the translation unit is
  compiled with exceptions (\<^verbatim>\<open>__EXCEPTIONS\<close>), and in \<^verbatim>\<open>assert(false); abort()\<close>
  otherwise. The build choice is the first argument. The map is returned next to
  the outcome.
\<close>

datatype failure = Out_of_range | Aborted

definition at_impl :: "bool \<Rightarrow> ('k, 'v) stdmap \<Rightarrow> 'k \<Rightarrow> ('k, 'v) stdmap \<times> (failure + 'v)" where
  "at_impl exceptions m key =
     (let it = find_m m key
      in if it \<noteq> end_m m \<and> eq_key m (fst (vec m ! it)) key then (m, Inr (snd (vec m ! it)))
         else if exceptions then (m, Inl Out_of_range)
         else (m, Inl Aborted))"

definition at_m :: "bool \<Rightarrow> ('k, 'v) stdmap \<Rightarrow> 'k \<Rightarrow> ('k, 'v) stdmap \<times> (failure + 'v)" where
  "at_m exceptions m key = at_impl exceptions m key"

text \<open>
  \<^verbatim>\<open>operator[]\<close> returns \<^verbatim>\<open>it->second\<close> by reference: the model returns the slot
  \<^verbatim>\<open>it\<close>, and reads and writes through the reference are \<open>ref_get\<close> and
  \<open>ref_set\<close> on that slot. The first argument is the value \<^verbatim>\<open>T()\<close>.
\<close>

definition subscript :: "'v \<Rightarrow> ('k, 'v) stdmap \<Rightarrow> 'k \<Rightarrow> ('k, 'v) stdmap \<times> nat" where
  "subscript T0 m key =
     (let it = lower_bound m key
      in if it = end_m m \<or> ne_key m (fst (vec m ! it)) key
         then (m\<lparr>vec := vector_insert (vec m) it (key, T0)\<rparr>, it)
         else (m, it))"

definition ref_get :: "('k, 'v) stdmap \<Rightarrow> nat \<Rightarrow> 'v" where
  "ref_get m it = snd (vec m ! it)"

definition ref_set :: "('k, 'v) stdmap \<Rightarrow> nat \<Rightarrow> 'v \<Rightarrow> ('k, 'v) stdmap" where
  "ref_set m it x = m\<lparr>vec := (vec m)[it := (fst (vec m ! it), x)]\<rparr>"

subsection \<open>Modifiers\<close>

definition insert_value :: "('k, 'v) stdmap \<Rightarrow> 'k \<times> 'v \<Rightarrow> ('k, 'v) stdmap \<times> (nat \<times> bool)" where
  "insert_value m x =
     (let it = lower_bound m (fst x)
      in if it = end_m m \<or> ne_key m (fst (vec m ! it)) (fst x)
         then (m\<lparr>vec := vector_insert (vec m) it x\<rparr>, (it, True))
         else (m, (it, False)))"

definition insert_hint :: "('k, 'v) stdmap \<Rightarrow> nat \<Rightarrow> 'k \<times> 'v \<Rightarrow> ('k, 'v) stdmap \<times> nat" where
  "insert_hint m position x =
     (let it = (if position = end_m m then position else lower_bound m (fst x))
      in if it = end_m m \<or> ne_key m (fst (vec m ! it)) (fst x)
         then (m\<lparr>vec := vector_insert (vec m) it x\<rparr>, it)
         else (m, begin_m m + (it - begin_m m)))"

fun insert_range :: "('k, 'v) stdmap \<Rightarrow> ('k \<times> 'v) list \<Rightarrow> ('k, 'v) stdmap" where
  "insert_range m [] = m"
| "insert_range m (x # rest) = insert_range (fst (insert_value m x)) rest"

text \<open>\<^verbatim>\<open>emplace(args...)\<close> first builds \<^verbatim>\<open>value_type val(args...)\<close>; the model takes \<^verbatim>\<open>val\<close>.\<close>

definition emplace :: "('k, 'v) stdmap \<Rightarrow> 'k \<times> 'v \<Rightarrow> ('k, 'v) stdmap \<times> (nat \<times> bool)" where
  "emplace m val =
     (let it = std_lower_bound (vec m) (begin_m m) (end_m m) val (\<lambda>a b. compare_value m a b)
      in if it = end_m m \<or> ne_key m (fst (vec m ! it)) (fst val)
         then (m\<lparr>vec := vector_insert (vec m) it val\<rparr>, (it, True))
         else (m, (it, False)))"

definition emplace_hint :: "('k, 'v) stdmap \<Rightarrow> nat \<Rightarrow> 'k \<times> 'v \<Rightarrow> ('k, 'v) stdmap \<times> nat" where
  "emplace_hint m hint val =
     (let it = (if hint = end_m m then hint else lower_bound m (fst val))
      in if it = end_m m \<or> ne_key m (fst (vec m ! it)) (fst val)
         then (m\<lparr>vec := vector_insert (vec m) it val\<rparr>, it)
         else (m, begin_m m + (hint - begin_m m)))"

definition erase_key :: "('k, 'v) stdmap \<Rightarrow> 'k \<Rightarrow> ('k, 'v) stdmap \<times> nat" where
  "erase_key m key =
     (let it = find_m m key
      in if it \<noteq> end_m m \<and> eq_key m (fst (vec m ! it)) key
         then (m\<lparr>vec := vector_erase (vec m) it (it + 1)\<rparr>, 1)
         else (m, 0))"

text \<open>
  \<^verbatim>\<open>erase(const_iterator position)\<close> and \<^verbatim>\<open>erase(const_iterator first, const_iterator last)\<close>
  hand their arguments to the vector. The vector requires \<^verbatim>\<open>position\<close> to be
  dereferenceable and \<^verbatim>\<open>[first, last)\<close> to be a range of the vector; a call outside
  that contract has no defined behaviour and is \<open>None\<close> here.
\<close>

definition erase_pos :: "('k, 'v) stdmap \<Rightarrow> nat \<Rightarrow> (('k, 'v) stdmap \<times> nat) option" where
  "erase_pos m position =
     (if position < end_m m
      then Some (m\<lparr>vec := vector_erase (vec m) position (position + 1)\<rparr>, position)
      else None)"

definition erase_range :: "('k, 'v) stdmap \<Rightarrow> nat \<Rightarrow> nat \<Rightarrow> (('k, 'v) stdmap \<times> nat) option" where
  "erase_range m first lastp =
     (if first \<le> lastp \<and> lastp \<le> end_m m
      then Some (m\<lparr>vec := vector_erase (vec m) first lastp\<rparr>, first)
      else None)"

subsection \<open>The requirements on the comparator and the invariant of the class\<close>

text \<open>
  The C++ requirement \<^emph>\<open>Compare\<close>: a strict weak ordering, that is irreflexive,
  transitive, and with a transitive incomparability relation.
\<close>

definition strict_weak_order :: "('k \<Rightarrow> 'k \<Rightarrow> bool) \<Rightarrow> bool" where
  "strict_weak_order lt \<longleftrightarrow>
     (\<forall>a. \<not> lt a a) \<and>
     (\<forall>a b c. lt a b \<longrightarrow> lt b c \<longrightarrow> lt a c) \<and>
     (\<forall>a b c. \<not> lt a b \<and> \<not> lt b a \<longrightarrow> \<not> lt b c \<and> \<not> lt c b \<longrightarrow> \<not> lt a c \<and> \<not> lt c a)"

text \<open>
  The sortedness invariant: every entry compares less than its right neighbour, so
  iteration yields the keys in strictly ascending order.
\<close>

definition sortedness :: "('k, 'v) stdmap \<Rightarrow> bool" where
  "sortedness m = successively (\<lambda>a b. compare_key m (fst a) (fst b)) (vec m)"

text \<open>A key is present when some stored key is equivalent to it under the comparator.\<close>

definition present :: "('k, 'v) stdmap \<Rightarrow> 'k \<Rightarrow> bool" where
  "present m key = (\<exists>e \<in> set (vec m). eq_key m (fst e) key)"

text \<open>
  What makes a hint a valid one for an entry: the entry fits between the slot before
  the hint and the slot at the hint. The header under \<^verbatim>\<open>src/src\<close> never tests this;
  the revision of the header with the hinted insert that does
  (\<^verbatim>\<open>src/unnamed/part_002\<close>, \<^verbatim>\<open>insert(const_iterator position, const value_type& x)\<close>)
  writes it as
  \<^verbatim>\<open>(position == begin() || comp(*(position-1), x)) && (position == end() || comp(x, *position))\<close>.
\<close>

definition valid_position :: "('k, 'v) stdmap \<Rightarrow> nat \<Rightarrow> 'k \<times> 'v \<Rightarrow> bool" where
  "valid_position m position x \<longleftrightarrow>
     (position = begin_m m \<or> compare_value m (vec m ! (position - 1)) x) \<and>
     (position = end_m m \<or> compare_value m x (vec m ! position))"

subsection \<open>Sequences of calls\<close>

text \<open>
  The \<^verbatim>\<open>insert\<close>, \<^verbatim>\<open>emplace\<close> and \<^verbatim>\<open>erase\<close> members of the public interface as calls, and
  the state a sequence of them leaves. A call that hands the vector a position
  outside it (an iterator that is not one of the container) has no defined
  behaviour and ends the run with \<open>None\<close>; calls by key and by value are always
  defined.
\<close>

datatype ('k, 'v) call =
  Insert "'k \<times> 'v"
| Insert_hint nat "'k \<times> 'v"
| Insert_range "('k \<times> 'v) list"
| Emplace "'k \<times> 'v"
| Emplace_hint nat "'k \<times> 'v"
| Erase 'k
| Erase_at nat
| Erase_from_to nat nat

fun call_m :: "('k, 'v) stdmap \<Rightarrow> ('k, 'v) call \<Rightarrow> ('k, 'v) stdmap option" where
  "call_m m (Insert x) = Some (fst (insert_value m x))"
| "call_m m (Insert_hint position x) =
     (if position \<le> end_m m then Some (fst (insert_hint m position x)) else None)"
| "call_m m (Insert_range xs) = Some (insert_range m xs)"
| "call_m m (Emplace val) = Some (fst (emplace m val))"
| "call_m m (Emplace_hint hint val) =
     (if hint \<le> end_m m then Some (fst (emplace_hint m hint val)) else None)"
| "call_m m (Erase key) = Some (fst (erase_key m key))"
| "call_m m (Erase_at position) = map_option fst (erase_pos m position)"
| "call_m m (Erase_from_to first lastp) = map_option fst (erase_range m first lastp)"

fun calls_m :: "('k, 'v) stdmap \<Rightarrow> ('k, 'v) call list \<Rightarrow> ('k, 'v) stdmap option" where
  "calls_m m [] = Some m"
| "calls_m m (c # cs) = (case call_m m c of None \<Rightarrow> None | Some m' \<Rightarrow> calls_m m' cs)"

text \<open>The calls that take a position of the vector.\<close>

fun by_position :: "('k, 'v) call \<Rightarrow> bool" where
  "by_position (Insert_hint position x) = True"
| "by_position (Emplace_hint hint val) = True"
| "by_position (Erase_at position) = True"
| "by_position (Erase_from_to first lastp) = True"
| "by_position c = False"

text \<open>A hinted call whose hint is the end sentinel of the map it is made on.\<close>

fun end_hint :: "('k, 'v) stdmap \<Rightarrow> ('k, 'v) call \<Rightarrow> bool" where
  "end_hint m (Insert_hint position x) = (position = end_m m)"
| "end_hint m (Emplace_hint hint val) = (hint = end_m m)"
| "end_hint m c = False"

text \<open>A sequence of calls in which no hinted call is given the end sentinel.\<close>

fun no_end_hint :: "('k, 'v) stdmap \<Rightarrow> ('k, 'v) call list \<Rightarrow> bool" where
  "no_end_hint m [] = True"
| "no_end_hint m (c # cs) =
     (\<not> end_hint m c \<and> (case call_m m c of None \<Rightarrow> True | Some m' \<Rightarrow> no_end_hint m' cs))"

section \<open>The binary searches\<close>

lemma lower_bound_loop_point:
  assumes "\<And>i. i < n \<Longrightarrow> cmp (xs ! i) val"
    and "\<And>i. n \<le> i \<Longrightarrow> i < length xs \<Longrightarrow> \<not> cmp (xs ! i) val"
    and "first \<le> n" and "n \<le> first + len" and "first + len \<le> length xs"
  shows "lower_bound_loop xs val cmp first len = n"
  using assms
proof (induction xs val cmp first len rule: lower_bound_loop.induct)
  case (1 xs val cmp first len)
  show ?case
  proof (cases "0 < len")
    case False
    with "1.prems" show ?thesis by simp
  next
    case True
    define half where "half = len div 2"
    define middle where "middle = first + half"
    have mid: "middle < length xs" "half < len"
      using True "1.prems"(5) by (auto simp: half_def middle_def)
    show ?thesis
    proof (cases "cmp (xs ! middle) val")
      case c: True
      have "middle < n"
        using c "1.prems"(2)[of middle] mid by (metis not_le_imp_less)
      then have "lower_bound_loop xs val cmp (middle + 1) (len - half - 1) = n"
        using "1.IH"(1)[OF True half_def middle_def c] "1.prems" mid
        by (auto simp: middle_def)
      then show ?thesis
        using True c by (subst lower_bound_loop.simps) (simp add: Let_def half_def middle_def)
    next
      case c: False
      have "n \<le> middle"
        using c "1.prems"(1)[of middle] by (metis not_le_imp_less)
      then have "lower_bound_loop xs val cmp first half = n"
        using "1.IH"(2)[OF True half_def middle_def c] "1.prems" mid
        by (auto simp: middle_def)
      then show ?thesis
        using True c by (subst lower_bound_loop.simps) (simp add: Let_def half_def middle_def)
    qed
  qed
qed

lemma upper_bound_loop_point:
  assumes "\<And>i. i < n \<Longrightarrow> \<not> cmp val (xs ! i)"
    and "\<And>i. n \<le> i \<Longrightarrow> i < length xs \<Longrightarrow> cmp val (xs ! i)"
    and "first \<le> n" and "n \<le> first + len" and "first + len \<le> length xs"
  shows "upper_bound_loop xs val cmp first len = n"
  using assms
proof (induction xs val cmp first len rule: upper_bound_loop.induct)
  case (1 xs val cmp first len)
  show ?case
  proof (cases "0 < len")
    case False
    with "1.prems" show ?thesis by simp
  next
    case True
    define half where "half = len div 2"
    define middle where "middle = first + half"
    have mid: "middle < length xs" "half < len"
      using True "1.prems"(5) by (auto simp: half_def middle_def)
    show ?thesis
    proof (cases "cmp val (xs ! middle)")
      case c: False
      have "middle < n"
        using c "1.prems"(2)[of middle] mid by (metis not_le_imp_less)
      then have "upper_bound_loop xs val cmp (middle + 1) (len - half - 1) = n"
        using "1.IH"(2)[OF True half_def middle_def c] "1.prems" mid
        by (auto simp: middle_def)
      then show ?thesis
        using True c by (subst upper_bound_loop.simps) (simp add: Let_def half_def middle_def)
    next
      case c: True
      have "n \<le> middle"
        using c "1.prems"(1)[of middle] by (metis not_le_imp_less)
      then have "upper_bound_loop xs val cmp first half = n"
        using "1.IH"(1)[OF True half_def middle_def c] "1.prems" mid
        by (auto simp: middle_def)
      then show ?thesis
        using True c by (subst upper_bound_loop.simps) (simp add: Let_def half_def middle_def)
    qed
  qed
qed

lemma lower_bound_loop_same:
  assumes "\<And>x. cmp x val = cmp' x val'"
  shows "lower_bound_loop xs val cmp first len = lower_bound_loop xs val' cmp' first len"
  using assms
proof (induction xs val cmp first len rule: lower_bound_loop.induct)
  case (1 xs val cmp first len)
  show ?case
    apply (subst lower_bound_loop.simps)
    apply (subst (2) lower_bound_loop.simps)
    using 1 by (simp add: Let_def)
qed

lemma emplace_eq_insert_value: "emplace m val = insert_value m val"
proof -
  have "lower_bound_loop (vec m) val (\<lambda>a b. compare_value m a b) (begin_m m) (end_m m - begin_m m)
      = lower_bound_loop (vec m) (fst val) (\<lambda>pair k. compare_key m (fst pair) k) (begin_m m) (end_m m - begin_m m)"
    by (rule lower_bound_loop_same) (simp add: compare_value_def)
  then show ?thesis
    unfolding emplace_def insert_value_def lower_bound_def lower_bound_impl_def std_lower_bound_def
    by (simp only:)
qed

subsection \<open>The bounds on a sorted vector\<close>

lemma takeWhile_point_before: "i < length (takeWhile P xs) \<Longrightarrow> P (xs ! i)"
  by (metis nth_mem set_takeWhileD takeWhile_nth)

lemma takeWhile_point_after:
  assumes "sorted_wrt R xs" and "\<forall>x y. R x y \<longrightarrow> P y \<longrightarrow> P x"
    and "length (takeWhile P xs) \<le> i" and "i < length xs"
  shows "\<not> P (xs ! i)"
proof
  assume p: "P (xs ! i)"
  let ?n = "length (takeWhile P xs)"
  have n: "?n < length xs" using assms by simp
  then have np: "\<not> P (xs ! ?n)" by (rule nth_length_takeWhile)
  with p have "?n \<noteq> i" by auto
  with assms have "?n < i" by simp
  then have "R (xs ! ?n) (xs ! i)"
    using assms(1,4) by (simp add: sorted_wrt_nth_less)
  with p assms(2) np show False by blast
qed

lemma strict_weak_order_transp:
  "strict_weak_order lt \<Longrightarrow> transp (\<lambda>a b. lt (fst a) (fst b))"
  unfolding strict_weak_order_def transp_def by blast

lemma sortedness_sorted_wrt:
  "strict_weak_order (compare_key m) \<Longrightarrow>
   sortedness m \<longleftrightarrow> sorted_wrt (\<lambda>a b. compare_key m (fst a) (fst b)) (vec m)"
  unfolding sortedness_def
  by (rule successively_conv_sorted_wrt) (rule strict_weak_order_transp)

lemma sortedness_nth:
  assumes "strict_weak_order (compare_key m)" and "sortedness m"
    and "i < j" and "j < length (vec m)"
  shows "compare_key m (fst (vec m ! i)) (fst (vec m ! j))"
  using sorted_wrt_nth_less[of "\<lambda>a b. compare_key m (fst a) (fst b)" "vec m" i j] assms
  by (simp add: sortedness_sorted_wrt)

lemma lower_bound_takeWhile:
  assumes "strict_weak_order (compare_key m)" and "sortedness m"
  shows "lower_bound m key = length (takeWhile (\<lambda>e. compare_key m (fst e) key) (vec m))"
proof -
  let ?P = "\<lambda>e. compare_key m (fst e) key"
  have mono: "\<forall>x y. compare_key m (fst x) (fst y) \<longrightarrow> ?P y \<longrightarrow> ?P x"
    using assms(1) unfolding strict_weak_order_def by blast
  have sw: "sorted_wrt (\<lambda>a b. compare_key m (fst a) (fst b)) (vec m)"
    using assms by (simp add: sortedness_sorted_wrt)
  show ?thesis
    unfolding lower_bound_def lower_bound_impl_def std_lower_bound_def begin_m_def end_m_def
  proof (rule lower_bound_loop_point)
    fix i assume "i < length (takeWhile ?P (vec m))"
    then show "compare_key m (fst (vec m ! i)) key" by (rule takeWhile_point_before)
  next
    fix i assume "length (takeWhile ?P (vec m)) \<le> i" "i < length (vec m)"
    then show "\<not> compare_key m (fst (vec m ! i)) key"
      using takeWhile_point_after[where P = ?P, OF sw mono] by blast
  qed (simp_all add: length_takeWhile_le)
qed

lemma upper_bound_takeWhile:
  assumes "strict_weak_order (compare_key m)" and "sortedness m"
  shows "upper_bound m key = length (takeWhile (\<lambda>e. \<not> compare_key m key (fst e)) (vec m))"
proof -
  let ?P = "\<lambda>e. \<not> compare_key m key (fst e)"
  have mono: "\<forall>x y. compare_key m (fst x) (fst y) \<longrightarrow> ?P y \<longrightarrow> ?P x"
    using assms(1) unfolding strict_weak_order_def by blast
  have sw: "sorted_wrt (\<lambda>a b. compare_key m (fst a) (fst b)) (vec m)"
    using assms by (simp add: sortedness_sorted_wrt)
  show ?thesis
    unfolding upper_bound_def upper_bound_impl_def std_upper_bound_def begin_m_def end_m_def
  proof (rule upper_bound_loop_point)
    fix i assume "i < length (takeWhile ?P (vec m))"
    then show "\<not> compare_key m key (fst (vec m ! i))" by (rule takeWhile_point_before)
  next
    fix i assume "length (takeWhile ?P (vec m)) \<le> i" "i < length (vec m)"
    then show "compare_key m key (fst (vec m ! i))"
      using takeWhile_point_after[where P = ?P, OF sw mono] by blast
  qed (simp_all add: length_takeWhile_le)
qed

lemma lower_bound_le:
  "strict_weak_order (compare_key m) \<Longrightarrow> sortedness m \<Longrightarrow> lower_bound m key \<le> length (vec m)"
  by (simp add: lower_bound_takeWhile length_takeWhile_le)

lemma lower_bound_before:
  "strict_weak_order (compare_key m) \<Longrightarrow> sortedness m \<Longrightarrow> i < lower_bound m key \<Longrightarrow>
   compare_key m (fst (vec m ! i)) key"
  using takeWhile_point_before[of i "\<lambda>e. compare_key m (fst e) key" "vec m"]
  by (simp add: lower_bound_takeWhile)

lemma lower_bound_after:
  assumes "strict_weak_order (compare_key m)" and "sortedness m"
    and "lower_bound m key \<le> i" and "i < length (vec m)"
  shows "\<not> compare_key m (fst (vec m ! i)) key"
proof -
  let ?P = "\<lambda>e. compare_key m (fst e) key"
  have mono: "\<forall>x y. compare_key m (fst x) (fst y) \<longrightarrow> ?P y \<longrightarrow> ?P x"
    using assms(1) unfolding strict_weak_order_def by blast
  have sw: "sorted_wrt (\<lambda>a b. compare_key m (fst a) (fst b)) (vec m)"
    using assms by (simp add: sortedness_sorted_wrt)
  show ?thesis
    using takeWhile_point_after[where P = ?P, OF sw mono, of i]
      assms(3,4) lower_bound_takeWhile[OF assms(1,2), of key]
    by simp
qed

lemma upper_bound_le:
  "strict_weak_order (compare_key m) \<Longrightarrow> sortedness m \<Longrightarrow> upper_bound m key \<le> length (vec m)"
  by (simp add: upper_bound_takeWhile length_takeWhile_le)

lemma upper_bound_before:
  "strict_weak_order (compare_key m) \<Longrightarrow> sortedness m \<Longrightarrow> i < upper_bound m key \<Longrightarrow>
   \<not> compare_key m key (fst (vec m ! i))"
  using takeWhile_point_before[of i "\<lambda>e. \<not> compare_key m key (fst e)" "vec m"]
  by (simp add: upper_bound_takeWhile)

lemma upper_bound_after:
  assumes "strict_weak_order (compare_key m)" and "sortedness m"
    and "upper_bound m key \<le> i" and "i < length (vec m)"
  shows "compare_key m key (fst (vec m ! i))"
proof -
  let ?P = "\<lambda>e. \<not> compare_key m key (fst e)"
  have mono: "\<forall>x y. compare_key m (fst x) (fst y) \<longrightarrow> ?P y \<longrightarrow> ?P x"
    using assms(1) unfolding strict_weak_order_def by blast
  have sw: "sorted_wrt (\<lambda>a b. compare_key m (fst a) (fst b)) (vec m)"
    using assms by (simp add: sortedness_sorted_wrt)
  show ?thesis
    using takeWhile_point_after[where P = ?P, OF sw mono, of i]
      assms(3,4) upper_bound_takeWhile[OF assms(1,2), of key]
    by simp
qed

subsection \<open>Where an equivalent key sits\<close>

lemma find_m_lower_bound:
  "find_m m key =
     (if lower_bound m key \<noteq> end_m m \<and> eq_key m (fst (vec m ! lower_bound m key)) key
      then lower_bound m key else end_m m)"
  unfolding find_m_def lower_bound_def lower_bound_impl_def by (simp only: Let_def)

lemma eq_key_position:
  assumes swo: "strict_weak_order (compare_key m)" and srt: "sortedness m"
    and i: "i < length (vec m)" and e: "eq_key m (fst (vec m ! i)) key"
  shows "lower_bound m key = i"
proof -
  let ?lb = "lower_bound m key"
  have e': "\<not> compare_key m (fst (vec m ! i)) key" "\<not> compare_key m key (fst (vec m ! i))"
    using e by (auto simp: eq_key_def ne_key_def)
  have "\<not> i < ?lb"
    using lower_bound_before[OF swo srt, of i key] e' by blast
  moreover have "\<not> ?lb < i"
  proof
    assume lt: "?lb < i"
    then have c: "compare_key m (fst (vec m ! ?lb)) (fst (vec m ! i))"
      using sortedness_nth[OF swo srt _ i] by blast
    have n: "\<not> compare_key m (fst (vec m ! ?lb)) key"
      using lower_bound_after[OF swo srt, of key ?lb] lt i by simp
    show False
      using swo c n e' unfolding strict_weak_order_def by metis
  qed
  ultimately show ?thesis by simp
qed

lemma present_lower_bound:
  assumes swo: "strict_weak_order (compare_key m)" and srt: "sortedness m"
  shows "present m key \<longleftrightarrow>
         lower_bound m key < length (vec m) \<and> eq_key m (fst (vec m ! lower_bound m key)) key"
proof
  assume "present m key"
  then obtain i where "i < length (vec m)" "eq_key m (fst (vec m ! i)) key"
    unfolding present_def by (auto simp: in_set_conv_nth)
  then show "lower_bound m key < length (vec m) \<and> eq_key m (fst (vec m ! lower_bound m key)) key"
    using eq_key_position[OF swo srt] by metis
next
  assume "lower_bound m key < length (vec m) \<and> eq_key m (fst (vec m ! lower_bound m key)) key"
  then show "present m key"
    unfolding present_def using nth_mem by blast
qed

lemma find_m_present:
  assumes "strict_weak_order (compare_key m)" and "sortedness m"
  shows "find_m m key = (if present m key then lower_bound m key else end_m m)"
  using lower_bound_le[OF assms, of key]
  by (auto simp: find_m_lower_bound present_lower_bound[OF assms] end_m_def)

lemma lower_bound_slot:
  assumes swo: "strict_weak_order (compare_key m)" and srt: "sortedness m"
    and ne: "lower_bound m key = end_m m \<or> ne_key m (fst (vec m ! lower_bound m key)) key"
    and i: "lower_bound m key \<le> i" "i < length (vec m)"
  shows "compare_key m key (fst (vec m ! i))"
proof -
  let ?lb = "lower_bound m key"
  have lb: "?lb < length (vec m)" using i by simp
  then have "ne_key m (fst (vec m ! ?lb)) key" using ne by (simp add: end_m_def)
  moreover have "\<not> compare_key m (fst (vec m ! ?lb)) key"
    using lower_bound_after[OF swo srt, of key ?lb] lb by simp
  ultimately have c: "compare_key m key (fst (vec m ! ?lb))" by (simp add: ne_key_def)
  show ?thesis
  proof (cases "?lb = i")
    case True
    with c show ?thesis by simp
  next
    case False
    then have "compare_key m (fst (vec m ! ?lb)) (fst (vec m ! i))"
      using sortedness_nth[OF swo srt _ i(2), of ?lb] i(1) by simp
    with c swo show ?thesis unfolding strict_weak_order_def by blast
  qed
qed

subsection \<open>Opening and closing slots keeps the order\<close>

lemma sorted_wrt_vector_erase:
  assumes "sorted_wrt R xs" and "first \<le> lastp"
  shows "sorted_wrt R (vector_erase xs first lastp)"
proof -
  have "sorted_wrt R (take first xs @ drop first xs)" using assms(1) by simp
  then have a: "\<forall>x\<in>set (take first xs). \<forall>y\<in>set (drop first xs). R x y"
    unfolding sorted_wrt_append by blast
  have "set (drop lastp xs) \<subseteq> set (drop first xs)"
    using assms(2) by (rule set_drop_subset_set_drop)
  with a have "\<forall>x\<in>set (take first xs). \<forall>y\<in>set (drop lastp xs). R x y" by blast
  then show ?thesis
    unfolding vector_erase_def sorted_wrt_append
    using assms(1) by simp
qed

lemma sortedness_vector_insert:
  assumes swo: "strict_weak_order (compare_key m)" and srt: "sortedness m"
    and ne: "lower_bound m (fst x) = end_m m \<or> ne_key m (fst (vec m ! lower_bound m (fst x))) (fst x)"
  shows "sortedness (m\<lparr>vec := vector_insert (vec m) (lower_bound m (fst x)) x\<rparr>)"
proof -
  let ?R = "\<lambda>a b. compare_key m (fst a) (fst b)"
  let ?lb = "lower_bound m (fst x)"
  have sw: "sorted_wrt ?R (vec m)" using swo srt by (simp add: sortedness_sorted_wrt)
  then have "sorted_wrt ?R (take ?lb (vec m) @ drop ?lb (vec m))" by simp
  then have cross: "\<forall>a\<in>set (take ?lb (vec m)). \<forall>b\<in>set (drop ?lb (vec m)). ?R a b"
    unfolding sorted_wrt_append by blast
  have before: "\<forall>a\<in>set (take ?lb (vec m)). ?R a x"
  proof
    fix a assume "a \<in> set (take ?lb (vec m))"
    then obtain i where "i < ?lb" "i < length (vec m)" "a = vec m ! i"
      by (auto simp: in_set_conv_nth)
    then show "?R a x" using lower_bound_before[OF swo srt, of i "fst x"] by simp
  qed
  have after: "\<forall>b\<in>set (drop ?lb (vec m)). ?R x b"
  proof
    fix b assume "b \<in> set (drop ?lb (vec m))"
    then obtain j where "j < length (vec m) - ?lb" "b = vec m ! (?lb + j)"
      by (auto simp: in_set_conv_nth)
    then show "?R x b" using lower_bound_slot[OF swo srt ne, of "?lb + j"] by simp
  qed
  have "sorted_wrt ?R (vector_insert (vec m) ?lb x)"
    unfolding vector_insert_def sorted_wrt_append
    using sw cross before after by simp
  then show ?thesis
    using swo by (simp add: sortedness_sorted_wrt)
qed

section \<open>Insertion of a key that is already present\<close>

lemma strict_weak_order_nat_less: "strict_weak_order ((<) :: nat \<Rightarrow> nat \<Rightarrow> bool)"
  unfolding strict_weak_order_def by auto

lemma at_impl_present:
  assumes swo: "strict_weak_order (compare_key m)" and srt: "sortedness m"
    and i: "i < length (vec m)" and e: "eq_key m (fst (vec m ! i)) key"
  shows "at_impl exceptions m key = (m, Inr (snd (vec m ! i)))"
proof -
  have "lower_bound m key = i" using eq_key_position[OF swo srt i e] .
  then have "find_m m key = i"
    using i e by (simp add: find_m_lower_bound end_m_def)
  then show ?thesis
    using i e by (simp add: at_impl_def end_m_def)
qed

text \<open>
  C3. In a map that satisfies the sortedness invariant, with the key \<open>k\<close> stored in
  slot \<open>i\<close> with the value \<open>v0\<close>: \<^verbatim>\<open>insert({k, v1})\<close> and \<^verbatim>\<open>emplace(k, v1)\<close> return
  the map as it was, together with the pair (slot \<open>i\<close>, false), and \<^verbatim>\<open>at(k)\<close> on the
  result still gives \<open>v0\<close>.
\<close>

theorem insert_emplace_existing_key:
  assumes "strict_weak_order (compare_key m)" and "sortedness m"
    and "i < size_m m" and "eq_key m (fst (vec m ! i)) k" and "snd (vec m ! i) = v0"
  shows "insert_value m (k, v1) = (m, (i, False)) \<and>
         emplace m (k, v1) = (m, (i, False)) \<and>
         snd (at_m exceptions (fst (insert_value m (k, v1))) k) = Inr v0"
proof -
  have i: "i < length (vec m)" using assms(3) by (simp add: size_m_def)
  have lb: "lower_bound m k = i" using eq_key_position[OF assms(1,2) i assms(4)] .
  have ins: "insert_value m (k, v1) = (m, (i, False))"
    using lb i assms(4) by (simp add: insert_value_def end_m_def eq_key_def)
  moreover have "emplace m (k, v1) = (m, (i, False))"
    using ins by (simp add: emplace_eq_insert_value)
  moreover have "snd (at_m exceptions (fst (insert_value m (k, v1))) k) = Inr v0"
    using ins at_impl_present[OF assms(1,2) i assms(4), of exceptions] assms(5)
    by (simp add: at_m_def)
  ultimately show ?thesis by blast
qed

theorem insert_emplace_existing_key_witness:
  "insert_value \<lparr>vec = [(1::nat, 10::nat), (2, 20)], compare_key = (<)\<rparr> (2, 99)
     = (\<lparr>vec = [(1, 10), (2, 20)], compare_key = (<)\<rparr>, (1, False)) \<and>
   emplace \<lparr>vec = [(1::nat, 10::nat), (2, 20)], compare_key = (<)\<rparr> (2, 99)
     = (\<lparr>vec = [(1, 10), (2, 20)], compare_key = (<)\<rparr>, (1, False)) \<and>
   snd (at_m True (fst (insert_value \<lparr>vec = [(1::nat, 10::nat), (2, 20)], compare_key = (<)\<rparr> (2, 99))) 2)
     = Inr 20"
proof -
  let ?m = "\<lparr>vec = [(1::nat, 10::nat), (2, 20)], compare_key = (<)\<rparr>"
  have "strict_weak_order (compare_key ?m)" by (simp add: strict_weak_order_nat_less)
  moreover have "sortedness ?m" by (simp add: sortedness_def)
  moreover have "1 < size_m ?m" by (simp add: size_m_def)
  moreover have "eq_key ?m (fst (vec ?m ! 1)) 2" by (simp add: eq_key_def ne_key_def)
  moreover have "snd (vec ?m ! 1) = 20" by simp
  ultimately show ?thesis by (rule insert_emplace_existing_key)
qed

section \<open>The invariant along sequences of calls\<close>

lemma compare_key_insert_value [simp]: "compare_key (fst (insert_value m x)) = compare_key m"
  by (simp add: insert_value_def Let_def)

lemma compare_key_erase_key [simp]: "compare_key (fst (erase_key m key)) = compare_key m"
  by (simp add: erase_key_def Let_def)

lemma compare_key_subscript [simp]: "compare_key (fst (subscript T0 m key)) = compare_key m"
  by (simp add: subscript_def Let_def)

lemma sortedness_insert_value:
  assumes "strict_weak_order (compare_key m)" and "sortedness m"
  shows "sortedness (fst (insert_value m x))"
  using sortedness_vector_insert[OF assms, of x] assms(2)
  by (simp add: insert_value_def Let_def)

lemma sortedness_subscript:
  assumes "strict_weak_order (compare_key m)" and "sortedness m"
  shows "sortedness (fst (subscript T0 m key))"
  using sortedness_vector_insert[OF assms, of "(key, T0)"] assms(2)
  by (simp add: subscript_def Let_def)

lemma sortedness_vector_erase:
  assumes "strict_weak_order (compare_key m)" and "sortedness m" and "first \<le> lastp"
  shows "sortedness (m\<lparr>vec := vector_erase (vec m) first lastp\<rparr>)"
  using sorted_wrt_vector_erase[of "\<lambda>a b. compare_key m (fst a) (fst b)" "vec m" first lastp] assms
  by (simp add: sortedness_sorted_wrt)

lemma sortedness_erase_key:
  assumes "strict_weak_order (compare_key m)" and "sortedness m"
  shows "sortedness (fst (erase_key m key))"
  using sortedness_vector_erase[OF assms, of "find_m m key" "find_m m key + 1"] assms(2)
  by (simp add: erase_key_def Let_def)

lemma insert_range_invariant:
  "strict_weak_order (compare_key m) \<Longrightarrow> sortedness m \<Longrightarrow>
   sortedness (insert_range m xs) \<and> compare_key (insert_range m xs) = compare_key m"
proof (induction xs arbitrary: m)
  case Nil
  then show ?case by simp
next
  case (Cons x xs)
  have "strict_weak_order (compare_key (fst (insert_value m x)))" using Cons.prems by simp
  moreover have "sortedness (fst (insert_value m x))"
    using Cons.prems by (rule sortedness_insert_value)
  ultimately show ?case using Cons.IH[of "fst (insert_value m x)"] by simp
qed

lemma hinted_insert_before_end:
  assumes "hint \<noteq> end_m m"
  shows "fst (insert_hint m hint x) = fst (insert_value m x)"
    and "fst (emplace_hint m hint x) = fst (emplace m x)"
  using assms
  by (simp_all add: insert_hint_def emplace_hint_def insert_value_def Let_def
      emplace_eq_insert_value)

lemma call_m_invariant:
  assumes "strict_weak_order (compare_key m)" and "sortedness m"
    and "\<not> end_hint m c" and "call_m m c = Some m'"
  shows "sortedness m' \<and> compare_key m' = compare_key m"
proof (cases c)
  case (Insert x)
  then show ?thesis using assms sortedness_insert_value[OF assms(1,2), of x] by auto
next
  case (Insert_hint position x)
  then have "m' = fst (insert_value m x)"
    using assms(3,4) hinted_insert_before_end(1)[of position m x] by (auto split: if_splits)
  then show ?thesis using sortedness_insert_value[OF assms(1,2), of x] by simp
next
  case (Insert_range xs)
  then show ?thesis using assms insert_range_invariant[OF assms(1,2), of xs] by auto
next
  case (Emplace val)
  then show ?thesis
    using assms sortedness_insert_value[OF assms(1,2), of val]
    by (auto simp: emplace_eq_insert_value)
next
  case (Emplace_hint hint val)
  then have "m' = fst (insert_value m val)"
    using assms(3,4) hinted_insert_before_end(2)[of hint m val]
    by (auto simp: emplace_eq_insert_value split: if_splits)
  then show ?thesis using sortedness_insert_value[OF assms(1,2), of val] by simp
next
  case (Erase key)
  then show ?thesis using assms sortedness_erase_key[OF assms(1,2), of key] by auto
next
  case (Erase_at position)
  then show ?thesis
    using assms sortedness_vector_erase[OF assms(1,2), of position "position + 1"]
    by (auto simp: erase_pos_def split: if_splits)
next
  case (Erase_from_to first lastp)
  then show ?thesis
    using assms sortedness_vector_erase[OF assms(1,2), of first lastp]
    by (auto simp: erase_range_def split: if_splits)
qed

lemma calls_m_invariant:
  "strict_weak_order (compare_key m) \<Longrightarrow> sortedness m \<Longrightarrow> no_end_hint m cs \<Longrightarrow>
   calls_m m cs = Some m' \<Longrightarrow> sortedness m' \<and> compare_key m' = compare_key m"
proof (induction cs arbitrary: m)
  case Nil
  then show ?case by simp
next
  case (Cons c cs)
  from Cons.prems(4) obtain m1 where m1: "call_m m c = Some m1" "calls_m m1 cs = Some m'"
    by (auto split: option.splits)
  have ok: "\<not> end_hint m c" "no_end_hint m1 cs"
    using Cons.prems(3) m1(1) by simp_all
  have inv: "sortedness m1 \<and> compare_key m1 = compare_key m"
    using call_m_invariant[OF Cons.prems(1,2) ok(1) m1(1)] .
  then show ?case using Cons.IH[of m1] Cons.prems(1) ok(2) m1(2) by simp
qed

lemma calls_m_defined:
  "\<forall>c \<in> set cs. \<not> by_position c \<Longrightarrow> \<exists>m'. calls_m m cs = Some m'"
proof (induction cs arbitrary: m)
  case Nil
  then show ?case by simp
next
  case (Cons c cs)
  then have "\<not> by_position c" by simp
  then obtain m1 where "call_m m c = Some m1" by (cases c) auto
  then show ?case using Cons by simp
qed

lemma no_end_hint_without_positions:
  "\<forall>c \<in> set cs. \<not> by_position c \<Longrightarrow> no_end_hint m cs"
proof (induction cs arbitrary: m)
  case Nil
  then show ?case by simp
next
  case (Cons c cs)
  then have "\<not> by_position c" by simp
  then have "\<not> end_hint m c" by (cases c) auto
  then show ?case using Cons by (auto split: option.splits)
qed

lemma count_m_filter:
  assumes swo: "strict_weak_order (compare_key m)" and srt: "sortedness m"
  shows "count_m m key = length (filter (\<lambda>e. eq_key m (fst e) key) (vec m))"
proof (cases "present m key")
  case False
  then have "filter (\<lambda>e. eq_key m (fst e) key) (vec m) = []"
    by (auto simp: present_def filter_empty_conv)
  then show ?thesis
    using False by (simp add: count_m_def find_m_present[OF swo srt])
next
  case True
  let ?i = "lower_bound m key"
  let ?P = "\<lambda>e. eq_key m (fst e) key"
  have i: "?i < length (vec m)" "?P (vec m ! ?i)"
    using True by (simp_all add: present_lower_bound[OF swo srt])
  have split: "vec m = take ?i (vec m) @ vec m ! ?i # drop (Suc ?i) (vec m)"
    using i(1) by (rule id_take_nth_drop)
  have a: "filter ?P (take ?i (vec m)) = []"
  proof -
    have "\<forall>e \<in> set (take ?i (vec m)). \<not> ?P e"
    proof
      fix e assume "e \<in> set (take ?i (vec m))"
      then obtain j where "j < ?i" "j < length (vec m)" "e = vec m ! j"
        by (auto simp: in_set_conv_nth)
      then show "\<not> ?P e" using eq_key_position[OF swo srt, of j key] by auto
    qed
    then show ?thesis by (simp add: filter_empty_conv)
  qed
  have b: "filter ?P (drop (Suc ?i) (vec m)) = []"
  proof -
    have "\<forall>e \<in> set (drop (Suc ?i) (vec m)). \<not> ?P e"
    proof
      fix e assume "e \<in> set (drop (Suc ?i) (vec m))"
      then obtain j where "j < length (vec m) - Suc ?i" "e = vec m ! (Suc ?i + j)"
        by (auto simp: in_set_conv_nth)
      then have "Suc ?i + j < length (vec m)" "e = vec m ! (Suc ?i + j)" by simp_all
      then show "\<not> ?P e" using eq_key_position[OF swo srt, of "Suc ?i + j" key] by auto
    qed
    then show ?thesis by (simp add: filter_empty_conv)
  qed
  have "filter ?P (vec m) = [vec m ! ?i]"
    by (subst split) (simp add: a b i(2))
  then show ?thesis
    using True i(1) by (simp add: count_m_def find_m_present[OF swo srt] end_m_def)
qed

lemmas stdmap_eval =
  stdmap_empty_def stdmap_range_def stdmap_init_list_def assign_init_list_def
  insert_value_def insert_hint_def emplace_def emplace_hint_def erase_key_def erase_pos_def
  erase_range_def subscript_def ref_get_def ref_set_def at_m_def at_impl_def
  find_m_def count_m_def lower_bound_def lower_bound_impl_def upper_bound_def upper_bound_impl_def
  equal_range_def std_lower_bound_def std_upper_bound_def begin_m_def end_m_def size_m_def
  vector_insert_def vector_erase_def eq_key_def ne_key_def compare_value_def sortedness_def Let_def

text \<open>
  Starting from the empty container, every sequence of \<^verbatim>\<open>insert\<close>, \<^verbatim>\<open>emplace\<close> and
  \<^verbatim>\<open>erase\<close> calls in which no hinted call is given the end sentinel leaves a state
  whose iteration gives the keys in strictly ascending comparator order; in that
  state \<^verbatim>\<open>count(k)\<close> is 0 or 1 for every key, and it is the number of stored entries
  whose key is equivalent to \<open>k\<close>. A sequence of calls by key and by value always
  leaves a state.
\<close>

lemma call_sequences_without_end_hint:
  assumes "strict_weak_order cmp"
  shows "((\<forall>c \<in> set cs. \<not> by_position c) \<longrightarrow>
            (\<exists>m :: ('k, 'v) stdmap. calls_m (stdmap_empty cmp) cs = Some m)) \<and>
         (\<forall>m :: ('k, 'v) stdmap.
            no_end_hint (stdmap_empty cmp :: ('k, 'v) stdmap) cs \<and>
            calls_m (stdmap_empty cmp) cs = Some m \<longrightarrow>
            sortedness m \<and>
            (\<forall>key. count_m m key = 0 \<or> count_m m key = 1) \<and>
            (\<forall>key. count_m m key = length (filter (\<lambda>e. eq_key m (fst e) key) (vec m))))"
proof (intro conjI allI impI)
  assume "\<forall>c \<in> set cs. \<not> by_position c"
  then show "\<exists>m :: ('k, 'v) stdmap. calls_m (stdmap_empty cmp) cs = Some m"
    by (rule calls_m_defined)
next
  fix m :: "('k, 'v) stdmap"
  let ?e = "stdmap_empty cmp :: ('k, 'v) stdmap"
  assume "no_end_hint ?e cs \<and> calls_m ?e cs = Some m"
  then have ok: "no_end_hint ?e cs" and run: "calls_m ?e cs = Some m" by simp_all
  have "strict_weak_order (compare_key ?e)"
    using assms by (simp add: stdmap_empty_def)
  moreover have "sortedness ?e"
    by (simp add: stdmap_empty_def sortedness_def)
  ultimately have "sortedness m \<and> compare_key m = compare_key ?e"
    using ok run by (rule calls_m_invariant)
  then have inv: "sortedness m \<and> compare_key m = cmp"
    by (simp add: stdmap_empty_def)
  then have swo: "strict_weak_order (compare_key m)"
    using assms by simp
  show "sortedness m" using inv by blast
  show "\<And>key. count_m m key = 0 \<or> count_m m key = 1"
    by (simp add: count_m_def)
  show "\<And>key. count_m m key = length (filter (\<lambda>e. eq_key m (fst e) key) (vec m))"
    using count_m_filter[OF swo] inv by blast
qed

lemma call_sequences_without_end_hint_example:
  "calls_m (stdmap_empty (<))
     [Insert (3::nat, 30::nat), Insert (1, 10), Emplace (2, 20), Erase 3, Insert_hint 0 (1, 99)]
     = Some \<lparr>vec = [(1, 10), (2, 20)], compare_key = (<)\<rparr> \<and>
   sortedness \<lparr>vec = [(1::nat, 10::nat), (2, 20)], compare_key = (<)\<rparr>"
proof -
  let ?cs = "[Insert (3::nat, 30::nat), Insert (1, 10), Emplace (2, 20), Erase 3, Insert_hint 0 (1, 99)]"
  have run: "calls_m (stdmap_empty (<)) ?cs = Some \<lparr>vec = [(1, 10), (2, 20)], compare_key = (<)\<rparr>"
    by (simp add: stdmap_eval)
  have ok: "no_end_hint (stdmap_empty (<) :: (nat, nat) stdmap) ?cs"
    by (simp add: stdmap_eval)
  show ?thesis
    using run
      call_sequences_without_end_hint[OF strict_weak_order_nat_less, THEN conjunct2, rule_format,
        OF conjI, OF ok run]
    by blast
qed

text \<open>
  C4. The claim covers every sequence of \<^verbatim>\<open>insert\<close>, \<^verbatim>\<open>emplace\<close> and \<^verbatim>\<open>erase\<close> calls.
  From the empty container, \<^verbatim>\<open>insert({2, 10})\<close>, \<^verbatim>\<open>insert({4, 30})\<close> and then
  \<^verbatim>\<open>insert(end(), {2, 99})\<close> leave a state that iterates the keys 2, 4, 2: not
  ascending, with two stored entries for the key 2 where \<^verbatim>\<open>count(2)\<close> is 1.
\<close>

theorem call_sequence_with_end_hint_unsorted:
  "calls_m (stdmap_empty (<)) [Insert (2::nat, 10::nat), Insert (4, 30), Insert_hint 2 (2, 99)]
     = Some \<lparr>vec = [(2, 10), (4, 30), (2, 99)], compare_key = (<)\<rparr> \<and>
   \<not> sortedness \<lparr>vec = [(2::nat, 10::nat), (4, 30), (2, 99)], compare_key = (<)\<rparr> \<and>
   count_m \<lparr>vec = [(2::nat, 10::nat), (4, 30), (2, 99)], compare_key = (<)\<rparr> 2 = 1 \<and>
   length (filter (\<lambda>e. eq_key \<lparr>vec = [(2::nat, 10::nat), (4, 30), (2, 99)], compare_key = (<)\<rparr> (fst e) 2)
             (vec \<lparr>vec = [(2::nat, 10::nat), (4, 30), (2, 99)], compare_key = (<)\<rparr>)) = 2"
  by (simp add: stdmap_eval)

section \<open>Erasure by key\<close>

lemma not_present_vector_erase:
  assumes swo: "strict_weak_order (compare_key m)" and srt: "sortedness m"
    and i: "i < length (vec m)" and e: "eq_key m (fst (vec m ! i)) key"
  shows "\<not> present (m\<lparr>vec := vector_erase (vec m) i (i + 1)\<rparr>) key"
proof
  assume "present (m\<lparr>vec := vector_erase (vec m) i (i + 1)\<rparr>) key"
  then obtain x where x: "x \<in> set (take i (vec m)) \<or> x \<in> set (drop (Suc i) (vec m))"
      and ex: "eq_key m (fst x) key"
    by (auto simp: present_def vector_erase_def eq_key_def ne_key_def)
  have lb: "lower_bound m key = i" using eq_key_position[OF swo srt i e] .
  from x show False
  proof
    assume "x \<in> set (take i (vec m))"
    then obtain j where "j < i" "j < length (vec m)" "x = vec m ! j"
      by (auto simp: in_set_conv_nth)
    then show False using eq_key_position[OF swo srt, of j key] ex lb by auto
  next
    assume "x \<in> set (drop (Suc i) (vec m))"
    then obtain j where "j < length (vec m) - Suc i" "x = vec m ! (Suc i + j)"
      by (auto simp: in_set_conv_nth)
    then have "Suc i + j < length (vec m)" "x = vec m ! (Suc i + j)" by simp_all
    then show False using eq_key_position[OF swo srt, of "Suc i + j" key] ex lb by auto
  qed
qed

lemma erase_key_present:
  assumes swo: "strict_weak_order (compare_key m)" and srt: "sortedness m"
    and i: "i < length (vec m)" and e: "eq_key m (fst (vec m ! i)) key"
  shows "find_m m key = i"
    and "erase_key m key = (m\<lparr>vec := take i (vec m) @ drop (Suc i) (vec m)\<rparr>, 1)"
proof -
  have "lower_bound m key = i" using eq_key_position[OF swo srt i e] .
  then show f: "find_m m key = i"
    using i e by (simp add: find_m_lower_bound end_m_def)
  show "erase_key m key = (m\<lparr>vec := take i (vec m) @ drop (Suc i) (vec m)\<rparr>, 1)"
    using f i e by (simp add: erase_key_def end_m_def vector_erase_def)
qed

lemma erase_key_absent:
  assumes "strict_weak_order (compare_key m)" and "sortedness m" and "\<not> present m key"
  shows "erase_key m key = (m, 0)"
  using assms(3) by (simp add: erase_key_def find_m_present[OF assms(1,2)])

text \<open>
  C5. In a map that satisfies the sortedness invariant: when an entry with a key
  equivalent to \<open>k\<close> is stored, in slot \<open>i\<close>, then \<^verbatim>\<open>erase(k)\<close> returns 1 and closes
  exactly that slot, every later entry moving down by one slot; the size drops by
  exactly one, the invariant still holds, and \<^verbatim>\<open>find(k)\<close> on the result is \<^verbatim>\<open>end()\<close>.
  When no such entry is stored, \<^verbatim>\<open>erase(k)\<close> returns 0 and the container, so also its
  size, is the one before the call.
\<close>

theorem erase_key_removes_the_entry:
  assumes "strict_weak_order (compare_key m)" and "sortedness m"
  shows "(\<forall>i. i < size_m m \<and> eq_key m (fst (vec m ! i)) k \<longrightarrow>
            erase_key m k = (m\<lparr>vec := take i (vec m) @ drop (Suc i) (vec m)\<rparr>, 1) \<and>
            (\<forall>j < size_m (fst (erase_key m k)).
               vec (fst (erase_key m k)) ! j = (if j < i then vec m ! j else vec m ! Suc j)) \<and>
            size_m (fst (erase_key m k)) + 1 = size_m m \<and>
            sortedness (fst (erase_key m k)) \<and>
            find_m (fst (erase_key m k)) k = end_m (fst (erase_key m k))) \<and>
         (\<not> present m k \<longrightarrow> erase_key m k = (m, 0) \<and> size_m (fst (erase_key m k)) = size_m m)"
proof (intro conjI allI impI)
  fix i assume a: "i < size_m m \<and> eq_key m (fst (vec m ! i)) k"
  then have i: "i < length (vec m)" and e: "eq_key m (fst (vec m ! i)) k"
    by (simp_all add: size_m_def)
  let ?m' = "m\<lparr>vec := take i (vec m) @ drop (Suc i) (vec m)\<rparr>"
  show er: "erase_key m k = (?m', 1)"
    using erase_key_present(2)[OF assms i e] .
  show "size_m (fst (erase_key m k)) + 1 = size_m m"
    using i by (simp add: er size_m_def)
  show srt': "sortedness (fst (erase_key m k))"
    using assms by (rule sortedness_erase_key)
  have "\<not> present ?m' k"
    using not_present_vector_erase[OF assms i e] by (simp add: vector_erase_def)
  then show "find_m (fst (erase_key m k)) k = end_m (fst (erase_key m k))"
    using find_m_present[of "fst (erase_key m k)" k] srt' assms(1) by (simp add: er)
  fix j assume "j < size_m (fst (erase_key m k))"
  then have "j < length (vec m) - 1" using i by (simp add: er size_m_def)
  then show "vec (fst (erase_key m k)) ! j = (if j < i then vec m ! j else vec m ! Suc j)"
    using i by (auto simp: er nth_append min_def)
next
  assume "\<not> present m k"
  then show "erase_key m k = (m, 0)" using erase_key_absent[OF assms] by simp
  then show "size_m (fst (erase_key m k)) = size_m m" by simp
qed

theorem erase_key_removes_the_entry_witness:
  "erase_key \<lparr>vec = [(1::nat, 10::nat), (2, 20), (3, 30)], compare_key = (<)\<rparr> 2
     = (\<lparr>vec = [(1, 10), (3, 30)], compare_key = (<)\<rparr>, 1) \<and>
   find_m (fst (erase_key \<lparr>vec = [(1::nat, 10::nat), (2, 20), (3, 30)], compare_key = (<)\<rparr> 2)) 2
     = end_m (fst (erase_key \<lparr>vec = [(1::nat, 10::nat), (2, 20), (3, 30)], compare_key = (<)\<rparr> 2)) \<and>
   erase_key \<lparr>vec = [(1::nat, 10::nat), (2, 20), (3, 30)], compare_key = (<)\<rparr> 5
     = (\<lparr>vec = [(1, 10), (2, 20), (3, 30)], compare_key = (<)\<rparr>, 0)"
proof -
  let ?m = "\<lparr>vec = [(1::nat, 10::nat), (2, 20), (3, 30)], compare_key = (<)\<rparr>"
  have swo: "strict_weak_order (compare_key ?m)" by (simp add: strict_weak_order_nat_less)
  have srt: "sortedness ?m" by (simp add: sortedness_def)
  have p: "1 < size_m ?m \<and> eq_key ?m (fst (vec ?m ! 1)) 2"
    by (simp add: size_m_def eq_key_def ne_key_def)
  have a: "\<not> present ?m 5" by (simp add: present_def eq_key_def ne_key_def)
  note here = erase_key_removes_the_entry[OF swo srt, of 2, THEN conjunct1, rule_format, OF p]
  note gone = erase_key_removes_the_entry[OF swo srt, of 5, THEN conjunct2, rule_format, OF a]
  have "erase_key ?m 2 = (\<lparr>vec = [(1, 10), (3, 30)], compare_key = (<)\<rparr>, 1)"
    using here by simp
  moreover have "find_m (fst (erase_key ?m 2)) 2 = end_m (fst (erase_key ?m 2))"
    using here by blast
  moreover have "erase_key ?m 5 = (?m, 0)"
    using gone by blast
  ultimately show ?thesis by blast
qed

section \<open>Checked access\<close>

lemma at_impl_absent:
  assumes "strict_weak_order (compare_key m)" and "sortedness m" and "\<not> present m key"
  shows "at_impl exceptions m key = (m, Inl (if exceptions then Out_of_range else Aborted))"
  using assms(3) by (simp add: at_impl_def find_m_present[OF assms(1,2)])

text \<open>
  C7. In a map that satisfies the sortedness invariant: \<^verbatim>\<open>at(k)\<close> gives the value stored
  with the equivalent key when there is one; when there is none it ends in
  \<^verbatim>\<open>throw std::out_of_range\<close> in a build with exceptions and in \<^verbatim>\<open>abort()\<close> in a build
  without, and the container is the one before the call. No other operation of the
  class has a failing outcome: every other member is embedded as a function without
  a failure component, as the source has no other \<^verbatim>\<open>throw\<close>, \<^verbatim>\<open>assert\<close> or \<^verbatim>\<open>abort\<close>.
\<close>

theorem at_value_or_out_of_range:
  assumes "strict_weak_order (compare_key m)" and "sortedness m"
  shows "(\<forall>i. i < size_m m \<and> eq_key m (fst (vec m ! i)) k \<longrightarrow>
            at_m exceptions m k = (m, Inr (snd (vec m ! i)))) \<and>
         (\<not> present m k \<longrightarrow>
            at_m True m k = (m, Inl Out_of_range) \<and> at_m False m k = (m, Inl Aborted))"
proof (intro conjI allI impI)
  fix i assume "i < size_m m \<and> eq_key m (fst (vec m ! i)) k"
  then show "at_m exceptions m k = (m, Inr (snd (vec m ! i)))"
    using at_impl_present[OF assms, of i k exceptions] by (simp add: at_m_def size_m_def)
next
  assume a: "\<not> present m k"
  show "at_m True m k = (m, Inl Out_of_range)"
    using at_impl_absent[OF assms a, of True] by (simp add: at_m_def)
  show "at_m False m k = (m, Inl Aborted)"
    using at_impl_absent[OF assms a, of False] by (simp add: at_m_def)
qed

theorem at_value_or_out_of_range_witness:
  "at_m True \<lparr>vec = [(1::nat, 10::nat), (2, 20), (3, 30)], compare_key = (<)\<rparr> 2
     = (\<lparr>vec = [(1, 10), (2, 20), (3, 30)], compare_key = (<)\<rparr>, Inr 20) \<and>
   at_m True \<lparr>vec = [(1::nat, 10::nat), (2, 20), (3, 30)], compare_key = (<)\<rparr> 5
     = (\<lparr>vec = [(1, 10), (2, 20), (3, 30)], compare_key = (<)\<rparr>, Inl Out_of_range) \<and>
   at_m False \<lparr>vec = [(1::nat, 10::nat), (2, 20), (3, 30)], compare_key = (<)\<rparr> 5
     = (\<lparr>vec = [(1, 10), (2, 20), (3, 30)], compare_key = (<)\<rparr>, Inl Aborted)"
proof -
  let ?m = "\<lparr>vec = [(1::nat, 10::nat), (2, 20), (3, 30)], compare_key = (<)\<rparr>"
  have swo: "strict_weak_order (compare_key ?m)" by (simp add: strict_weak_order_nat_less)
  have srt: "sortedness ?m" by (simp add: sortedness_def)
  have p: "1 < size_m ?m \<and> eq_key ?m (fst (vec ?m ! 1)) 2"
    by (simp add: size_m_def eq_key_def ne_key_def)
  have a: "\<not> present ?m 5" by (simp add: present_def eq_key_def ne_key_def)
  note here = at_value_or_out_of_range[OF swo srt, of 2 True, THEN conjunct1, rule_format, OF p]
  note gone = at_value_or_out_of_range[OF swo srt, of 5 True, THEN conjunct2, rule_format, OF a]
  have "at_m True ?m 2 = (?m, Inr 20)" using here by simp
  then show ?thesis using gone by blast
qed

section \<open>Access or insert\<close>

lemma subscript_present:
  assumes swo: "strict_weak_order (compare_key m)" and srt: "sortedness m"
    and i: "i < length (vec m)" and e: "eq_key m (fst (vec m ! i)) key"
  shows "subscript T0 m key = (m, i)"
proof -
  have "lower_bound m key = i" using eq_key_position[OF swo srt i e] .
  then show ?thesis using i e by (simp add: subscript_def end_m_def eq_key_def)
qed

lemma subscript_absent:
  assumes swo: "strict_weak_order (compare_key m)" and srt: "sortedness m"
    and a: "\<not> present m key"
  shows "subscript T0 m key =
           (m\<lparr>vec := vector_insert (vec m) (lower_bound m key) (key, T0)\<rparr>, lower_bound m key)"
  using a lower_bound_le[OF swo srt, of key]
  by (auto simp: subscript_def Let_def present_lower_bound[OF swo srt] end_m_def eq_key_def)

lemma insert_value_absent:
  assumes swo: "strict_weak_order (compare_key m)" and srt: "sortedness m"
    and a: "\<not> present m (fst x)"
  shows "insert_value m x =
           (m\<lparr>vec := vector_insert (vec m) (lower_bound m (fst x)) x\<rparr>, (lower_bound m (fst x), True))"
  using a lower_bound_le[OF swo srt, of "fst x"]
  by (auto simp: insert_value_def Let_def present_lower_bound[OF swo srt] end_m_def eq_key_def)

lemma nth_vector_insert: "pos \<le> length xs \<Longrightarrow> vector_insert xs pos x ! pos = x"
  by (simp add: vector_insert_def nth_append)

lemma length_vector_insert: "length (vector_insert xs pos x) = Suc (length xs)"
  by (simp add: vector_insert_def)

lemma eq_key_refl: "strict_weak_order (compare_key m) \<Longrightarrow> eq_key m a a"
  by (simp add: eq_key_def ne_key_def strict_weak_order_def)

lemma sortedness_keys:
  "sortedness m \<longleftrightarrow> successively (compare_key m) (map fst (vec m))"
  by (simp add: sortedness_def successively_map)

lemma keys_ref_set: "map fst (vec (ref_set m it x)) = map fst (vec m)"
proof (cases "it < length (vec m)")
  case True
  then show ?thesis
    by (simp add: ref_set_def map_update) (metis list_update_id nth_map)
next
  case False
  then show ?thesis by (simp add: ref_set_def list_update_beyond)
qed

lemma sortedness_ref_set: "sortedness (ref_set m it x) \<longleftrightarrow> sortedness m"
proof -
  have "compare_key (ref_set m it x) = compare_key m" by (simp add: ref_set_def)
  then show ?thesis by (simp add: sortedness_keys keys_ref_set)
qed

lemma write_through_reference:
  assumes swo: "strict_weak_order (compare_key m)" and srt: "sortedness m"
    and i: "it < length (vec m)" and e: "eq_key m (fst (vec m ! it)) key"
  shows "sortedness (ref_set m it x) \<and>
         find_m (ref_set m it x) key = it \<and>
         ref_get (ref_set m it x) it = x \<and>
         at_m exceptions (ref_set m it x) key = (ref_set m it x, Inr x)"
proof -
  let ?m = "ref_set m it x"
  have c: "compare_key ?m = compare_key m" by (simp add: ref_set_def)
  have swo': "strict_weak_order (compare_key ?m)" using swo c by simp
  have srt': "sortedness ?m" using srt by (simp add: sortedness_ref_set)
  have i': "it < length (vec ?m)" using i by (simp add: ref_set_def)
  have v: "vec ?m ! it = (fst (vec m ! it), x)" using i by (simp add: ref_set_def)
  have e': "eq_key ?m (fst (vec ?m ! it)) key"
    using e by (simp add: v eq_key_def ne_key_def c)
  have "find_m ?m key = it" using erase_key_present(1)[OF swo' srt' i' e'] .
  moreover have "ref_get ?m it = x" by (simp add: ref_get_def v)
  moreover have "at_m exceptions ?m key = (?m, Inr x)"
    using at_impl_present[OF swo' srt' i' e', of exceptions] by (simp add: at_m_def v)
  ultimately show ?thesis using srt' by blast
qed

text \<open>
  C6. In a map that satisfies the sortedness invariant, \<^verbatim>\<open>operator[](k)\<close> always returns
  a reference, to a slot that holds a key equivalent to \<open>k\<close> and that \<^verbatim>\<open>find(k)\<close>
  returns, in a map that satisfies the invariant. When \<open>k\<close> is present the map is
  the one before the call, so the reference is to the stored value. When \<open>k\<close> is
  absent the only change is a new slot with the pair (\<open>k\<close>, \<^verbatim>\<open>T()\<close>), and the
  reference is to that value. A value written through the reference is what
  \<^verbatim>\<open>find(k)\<close> and \<^verbatim>\<open>at(k)\<close> see afterwards.
\<close>

theorem subscript_reference:
  assumes "strict_weak_order (compare_key m)" and "sortedness m"
  shows "\<exists>m' it. subscript T0 m k = (m', it) \<and>
           sortedness m' \<and> it < size_m m' \<and> eq_key m' (fst (vec m' ! it)) k \<and>
           find_m m' k = it \<and>
           (present m k \<longrightarrow> m' = m) \<and>
           (\<not> present m k \<longrightarrow>
              it \<le> size_m m \<and> m' = m\<lparr>vec := take it (vec m) @ (k, T0) # drop it (vec m)\<rparr> \<and>
              ref_get m' it = T0) \<and>
           (\<forall>x. sortedness (ref_set m' it x) \<and>
                find_m (ref_set m' it x) k = it \<and>
                ref_get (ref_set m' it x) (find_m (ref_set m' it x) k) = x \<and>
                at_m exceptions (ref_set m' it x) k = (ref_set m' it x, Inr x))"
proof (cases "present m k")
  case True
  let ?i = "lower_bound m k"
  have i: "?i < length (vec m)" and e: "eq_key m (fst (vec m ! ?i)) k"
    using True by (simp_all add: present_lower_bound[OF assms])
  have s: "subscript T0 m k = (m, ?i)" using subscript_present[OF assms i e] .
  have f: "find_m m k = ?i" using erase_key_present(1)[OF assms i e] .
  have w: "\<forall>x. sortedness (ref_set m ?i x) \<and>
                find_m (ref_set m ?i x) k = ?i \<and>
                ref_get (ref_set m ?i x) (find_m (ref_set m ?i x) k) = x \<and>
                at_m exceptions (ref_set m ?i x) k = (ref_set m ?i x, Inr x)"
    using write_through_reference[OF assms i e, of _ exceptions] by simp
  have i2: "?i < size_m m" using i by (simp add: size_m_def)
  show ?thesis
    using s assms(2) i2 e f True w by blast
next
  case False
  let ?i = "lower_bound m k"
  let ?m = "m\<lparr>vec := vector_insert (vec m) ?i (k, T0)\<rparr>"
  have le: "?i \<le> length (vec m)" using lower_bound_le[OF assms] .
  have s: "subscript T0 m k = (?m, ?i)" using subscript_absent[OF assms False] .
  have swo': "strict_weak_order (compare_key ?m)" using assms(1) by simp
  have srt': "sortedness ?m" using sortedness_subscript[OF assms, of T0 k] by (simp add: s)
  have i': "?i < length (vec ?m)" using le by (simp add: length_vector_insert)
  have v: "vec ?m ! ?i = (k, T0)" using le by (simp add: nth_vector_insert)
  have e': "eq_key ?m (fst (vec ?m ! ?i)) k"
    using eq_key_refl[OF swo', of k] by (simp only: v fst_conv)
  have f: "find_m ?m k = ?i" using erase_key_present(1)[OF swo' srt' i' e'] .
  have w: "\<forall>x. sortedness (ref_set ?m ?i x) \<and>
                find_m (ref_set ?m ?i x) k = ?i \<and>
                ref_get (ref_set ?m ?i x) (find_m (ref_set ?m ?i x) k) = x \<and>
                at_m exceptions (ref_set ?m ?i x) k = (ref_set ?m ?i x, Inr x)"
    using write_through_reference[OF swo' srt' i' e', of _ exceptions] by simp
  have g: "ref_get ?m ?i = T0" by (simp only: ref_get_def v snd_conv)
  have shape: "?m = m\<lparr>vec := take ?i (vec m) @ (k, T0) # drop ?i (vec m)\<rparr>"
    by (simp add: vector_insert_def)
  have i2: "?i < size_m ?m" using i' by (simp add: size_m_def)
  have le2: "?i \<le> size_m m" using le by (simp add: size_m_def)
  have new: "\<not> present m k \<longrightarrow>
      ?i \<le> size_m m \<and> ?m = m\<lparr>vec := take ?i (vec m) @ (k, T0) # drop ?i (vec m)\<rparr> \<and>
      ref_get ?m ?i = T0"
    using le2 shape g by blast
  have old: "present m k \<longrightarrow> ?m = m" using False by blast
  show ?thesis
    using s srt' i2 e' f old new w by blast
qed

theorem subscript_reference_witness:
  "subscript 0 \<lparr>vec = [(1::nat, 10::nat), (3, 30)], compare_key = (<)\<rparr> 2
     = (\<lparr>vec = [(1, 10), (2, 0), (3, 30)], compare_key = (<)\<rparr>, 1) \<and>
   find_m (ref_set \<lparr>vec = [(1::nat, 10::nat), (2, 0), (3, 30)], compare_key = (<)\<rparr> 1 20) 2 = 1 \<and>
   at_m True (ref_set \<lparr>vec = [(1::nat, 10::nat), (2, 0), (3, 30)], compare_key = (<)\<rparr> 1 20) 2
     = (ref_set \<lparr>vec = [(1::nat, 10::nat), (2, 0), (3, 30)], compare_key = (<)\<rparr> 1 20, Inr 20)"
proof -
  let ?m = "\<lparr>vec = [(1::nat, 10::nat), (3, 30)], compare_key = (<)\<rparr>"
  let ?m' = "\<lparr>vec = [(1::nat, 10::nat), (2, 0), (3, 30)], compare_key = (<)\<rparr>"
  have swo: "strict_weak_order (compare_key ?m)" by (simp add: strict_weak_order_nat_less)
  have srt: "sortedness ?m" by (simp add: sortedness_def)
  obtain m' it where s: "subscript 0 ?m 2 = (m', it)"
    and w: "\<forall>x. sortedness (ref_set m' it x) \<and>
                find_m (ref_set m' it x) 2 = it \<and>
                ref_get (ref_set m' it x) (find_m (ref_set m' it x) 2) = x \<and>
                at_m True (ref_set m' it x) 2 = (ref_set m' it x, Inr x)"
    using subscript_reference[OF swo srt, of 0 2 True] by blast
  have ev: "subscript 0 ?m 2 = (?m', 1)" by (simp add: stdmap_eval)
  from s ev have "m' = ?m'" "it = 1" by simp_all
  with w ev show ?thesis by blast
qed

section \<open>Bounds and ranges\<close>

lemma lower_le_upper:
  assumes swo: "strict_weak_order (compare_key m)" and srt: "sortedness m"
  shows "lower_bound m key \<le> upper_bound m key"
proof (rule ccontr)
  assume "\<not> lower_bound m key \<le> upper_bound m key"
  then have lt: "upper_bound m key < lower_bound m key" by simp
  then have len: "upper_bound m key < length (vec m)"
    using lower_bound_le[OF swo srt, of key] by simp
  have "compare_key m (fst (vec m ! upper_bound m key)) key"
    using lower_bound_before[OF swo srt lt] .
  moreover have "compare_key m key (fst (vec m ! upper_bound m key))"
    using upper_bound_after[OF swo srt _ len, of key] by simp
  ultimately show False using swo unfolding strict_weak_order_def by blast
qed

lemma upper_le_Suc_lower:
  assumes swo: "strict_weak_order (compare_key m)" and srt: "sortedness m"
  shows "upper_bound m key \<le> Suc (lower_bound m key)"
proof (rule ccontr)
  assume "\<not> upper_bound m key \<le> Suc (lower_bound m key)"
  then have lt: "Suc (lower_bound m key) < upper_bound m key" by simp
  then have len: "Suc (lower_bound m key) < length (vec m)"
    using upper_bound_le[OF swo srt, of key] by simp
  have "\<not> compare_key m key (fst (vec m ! Suc (lower_bound m key)))"
    using upper_bound_before[OF swo srt lt] .
  moreover have "\<not> compare_key m (fst (vec m ! Suc (lower_bound m key))) key"
    using lower_bound_after[OF swo srt _ len, of key] by simp
  ultimately have "eq_key m (fst (vec m ! Suc (lower_bound m key))) key"
    by (simp add: eq_key_def ne_key_def)
  then have "lower_bound m key = Suc (lower_bound m key)"
    using eq_key_position[OF swo srt len] by blast
  then show False by simp
qed

lemma one_entry_iff_present:
  assumes swo: "strict_weak_order (compare_key m)" and srt: "sortedness m"
  shows "upper_bound m key - lower_bound m key = 1 \<longleftrightarrow> present m key"
proof
  assume "upper_bound m key - lower_bound m key = 1"
  then have lt: "lower_bound m key < upper_bound m key" by simp
  then have len: "lower_bound m key < length (vec m)"
    using upper_bound_le[OF swo srt, of key] by simp
  have "\<not> compare_key m key (fst (vec m ! lower_bound m key))"
    using upper_bound_before[OF swo srt lt] .
  moreover have "\<not> compare_key m (fst (vec m ! lower_bound m key)) key"
    using lower_bound_after[OF swo srt _ len, of key] by simp
  ultimately show "present m key"
    using len by (simp add: present_lower_bound[OF swo srt] eq_key_def ne_key_def)
next
  assume "present m key"
  then have len: "lower_bound m key < length (vec m)"
    and e: "eq_key m (fst (vec m ! lower_bound m key)) key"
    by (simp_all add: present_lower_bound[OF swo srt])
  have "\<not> upper_bound m key \<le> lower_bound m key"
    using upper_bound_after[OF swo srt _ len, of key] e by (auto simp: eq_key_def ne_key_def)
  then show "upper_bound m key - lower_bound m key = 1"
    using upper_le_Suc_lower[OF swo srt, of key] by simp
qed

lemma find_m_end_iff:
  assumes swo: "strict_weak_order (compare_key m)" and srt: "sortedness m"
  shows "find_m m key \<noteq> end_m m \<longleftrightarrow> present m key"
  using present_lower_bound[OF swo srt, of key]
  by (auto simp: find_m_present[OF swo srt] end_m_def)

text \<open>
  C8. In a map that satisfies the sortedness invariant: \<^verbatim>\<open>lower_bound(k)\<close> is the first
  position whose key is not less than \<open>k\<close> (every key before it is less, no key from
  it on is), \<^verbatim>\<open>upper_bound(k)\<close> is the first position whose key is greater than \<open>k\<close>
  (no key before it is greater, every key from it on is), \<^verbatim>\<open>equal_range(k)\<close> is the
  pair of the two, the range between them holds no entry or one entry, and it holds
  one exactly when \<^verbatim>\<open>find(k)\<close> is not \<^verbatim>\<open>end()\<close>, which is exactly when \<^verbatim>\<open>count(k)\<close> is 1.
\<close>

theorem bounds_and_equal_range:
  assumes "strict_weak_order (compare_key m)" and "sortedness m"
  shows "lower_bound m k \<le> size_m m \<and>
         (\<forall>i < lower_bound m k. compare_key m (fst (vec m ! i)) k) \<and>
         (\<forall>i. lower_bound m k \<le> i \<and> i < size_m m \<longrightarrow> \<not> compare_key m (fst (vec m ! i)) k) \<and>
         upper_bound m k \<le> size_m m \<and>
         (\<forall>i < upper_bound m k. \<not> compare_key m k (fst (vec m ! i))) \<and>
         (\<forall>i. upper_bound m k \<le> i \<and> i < size_m m \<longrightarrow> compare_key m k (fst (vec m ! i))) \<and>
         equal_range m k = (lower_bound m k, upper_bound m k) \<and>
         lower_bound m k \<le> upper_bound m k \<and>
         (upper_bound m k - lower_bound m k = 0 \<or> upper_bound m k - lower_bound m k = 1) \<and>
         (upper_bound m k - lower_bound m k = 1 \<longleftrightarrow> find_m m k \<noteq> end_m m) \<and>
         (find_m m k \<noteq> end_m m \<longleftrightarrow> count_m m k = 1)"
proof -
  have "lower_bound m k \<le> size_m m"
    using lower_bound_le[OF assms] by (simp add: size_m_def)
  moreover have "\<forall>i < lower_bound m k. compare_key m (fst (vec m ! i)) k"
    using lower_bound_before[OF assms] by blast
  moreover have "\<forall>i. lower_bound m k \<le> i \<and> i < size_m m \<longrightarrow> \<not> compare_key m (fst (vec m ! i)) k"
    using lower_bound_after[OF assms] by (simp add: size_m_def)
  moreover have "upper_bound m k \<le> size_m m"
    using upper_bound_le[OF assms] by (simp add: size_m_def)
  moreover have "\<forall>i < upper_bound m k. \<not> compare_key m k (fst (vec m ! i))"
    using upper_bound_before[OF assms] by blast
  moreover have "\<forall>i. upper_bound m k \<le> i \<and> i < size_m m \<longrightarrow> compare_key m k (fst (vec m ! i))"
    using upper_bound_after[OF assms] by (simp add: size_m_def)
  moreover have "equal_range m k = (lower_bound m k, upper_bound m k)"
    by (simp add: equal_range_def)
  moreover have "lower_bound m k \<le> upper_bound m k"
    using lower_le_upper[OF assms] .
  moreover have "upper_bound m k - lower_bound m k = 0 \<or> upper_bound m k - lower_bound m k = 1"
    using upper_le_Suc_lower[OF assms, of k] by auto
  moreover have "upper_bound m k - lower_bound m k = 1 \<longleftrightarrow> find_m m k \<noteq> end_m m"
    using one_entry_iff_present[OF assms, of k] find_m_end_iff[OF assms, of k] by simp
  moreover have "find_m m k \<noteq> end_m m \<longleftrightarrow> count_m m k = 1"
    by (simp add: count_m_def)
  ultimately show ?thesis by blast
qed

theorem bounds_and_equal_range_witness:
  "equal_range \<lparr>vec = [(2::nat, 10::nat), (4, 30), (6, 50)], compare_key = (<)\<rparr> 4 = (1, 2) \<and>
   find_m \<lparr>vec = [(2::nat, 10::nat), (4, 30), (6, 50)], compare_key = (<)\<rparr> 4 = 1 \<and>
   count_m \<lparr>vec = [(2::nat, 10::nat), (4, 30), (6, 50)], compare_key = (<)\<rparr> 4 = 1 \<and>
   equal_range \<lparr>vec = [(2::nat, 10::nat), (4, 30), (6, 50)], compare_key = (<)\<rparr> 5 = (2, 2) \<and>
   find_m \<lparr>vec = [(2::nat, 10::nat), (4, 30), (6, 50)], compare_key = (<)\<rparr> 5
     = end_m \<lparr>vec = [(2::nat, 10::nat), (4, 30), (6, 50)], compare_key = (<)\<rparr> \<and>
   count_m \<lparr>vec = [(2::nat, 10::nat), (4, 30), (6, 50)], compare_key = (<)\<rparr> 5 = 0"
proof -
  let ?m = "\<lparr>vec = [(2::nat, 10::nat), (4, 30), (6, 50)], compare_key = (<)\<rparr>"
  have swo: "strict_weak_order (compare_key ?m)" by (simp add: strict_weak_order_nat_less)
  have srt: "sortedness ?m" by (simp add: sortedness_def)
  note hit = bounds_and_equal_range[OF swo srt, of 4]
  note miss = bounds_and_equal_range[OF swo srt, of 5]
  have l3: "lower_bound ?m 4 = 1" and u3: "upper_bound ?m 4 = 2"
    and l4: "lower_bound ?m 5 = 2" and u4: "upper_bound ?m 5 = 2"
    by (simp_all add: stdmap_eval)
  from hit have e3: "equal_range ?m 4 = (lower_bound ?m 4, upper_bound ?m 4)"
    and d3: "upper_bound ?m 4 - lower_bound ?m 4 = 1 \<longleftrightarrow> find_m ?m 4 \<noteq> end_m ?m"
    and c3: "find_m ?m 4 \<noteq> end_m ?m \<longleftrightarrow> count_m ?m 4 = 1"
    by blast+
  from miss have e4: "equal_range ?m 5 = (lower_bound ?m 5, upper_bound ?m 5)"
    and d4: "upper_bound ?m 5 - lower_bound ?m 5 = 1 \<longleftrightarrow> find_m ?m 5 \<noteq> end_m ?m"
    and c4: "find_m ?m 5 \<noteq> end_m ?m \<longleftrightarrow> count_m ?m 5 = 1"
    by blast+
  have n3: "find_m ?m 4 \<noteq> end_m ?m" using d3 by (simp add: l3 u3)
  have n4: "find_m ?m 5 = end_m ?m" using d4 by (simp add: l4 u4)
  have "equal_range ?m 4 = (1, 2)" using e3 by (simp only: l3 u3)
  moreover have "find_m ?m 4 = 1" by (simp add: stdmap_eval)
  moreover have "count_m ?m 4 = 1" using c3 n3 by blast
  moreover have "equal_range ?m 5 = (2, 2)" using e4 by (simp only: l4 u4)
  moreover note n4
  moreover have "count_m ?m 5 = 0" using n4 by (simp only: count_m_def simp_thms if_False)
  ultimately show ?thesis by blast
qed

section \<open>What insertion and erasure leave alone\<close>

lemma filter_others_vector_erase:
  assumes swo: "strict_weak_order (compare_key m)" and srt: "sortedness m"
    and i: "i < length (vec m)" and e: "eq_key m (fst (vec m ! i)) key"
  shows "filter (\<lambda>e. ne_key m (fst e) key) (vec m) = take i (vec m) @ drop (Suc i) (vec m)"
proof -
  let ?P = "\<lambda>e. ne_key m (fst e) key"
  have lb: "lower_bound m key = i" using eq_key_position[OF swo srt i e] .
  have split: "vec m = take i (vec m) @ vec m ! i # drop (Suc i) (vec m)"
    using i by (rule id_take_nth_drop)
  have a: "filter ?P (take i (vec m)) = take i (vec m)"
  proof -
    have "\<forall>x \<in> set (take i (vec m)). ?P x"
    proof
      fix x assume "x \<in> set (take i (vec m))"
      then obtain j where "j < i" "j < length (vec m)" "x = vec m ! j"
        by (auto simp: in_set_conv_nth)
      then show "?P x" using eq_key_position[OF swo srt, of j key] lb by (auto simp: eq_key_def)
    qed
    then show ?thesis by (simp add: filter_id_conv)
  qed
  have b: "filter ?P (drop (Suc i) (vec m)) = drop (Suc i) (vec m)"
  proof -
    have "\<forall>x \<in> set (drop (Suc i) (vec m)). ?P x"
    proof
      fix x assume "x \<in> set (drop (Suc i) (vec m))"
      then obtain j where "j < length (vec m) - Suc i" "x = vec m ! (Suc i + j)"
        by (auto simp: in_set_conv_nth)
      then have "Suc i + j < length (vec m)" "x = vec m ! (Suc i + j)" by simp_all
      then show "?P x"
        using eq_key_position[OF swo srt, of "Suc i + j" key] lb by (auto simp: eq_key_def)
    qed
    then show ?thesis by (simp add: filter_id_conv)
  qed
  have c: "\<not> ?P (vec m ! i)" using e by (simp add: eq_key_def)
  have "filter ?P (vec m) = filter ?P (take i (vec m) @ vec m ! i # drop (Suc i) (vec m))"
    using split by simp
  also have "\<dots> = take i (vec m) @ drop (Suc i) (vec m)"
    using a b c by simp
  finally show ?thesis .
qed

text \<open>
  C10. In a map that satisfies the sortedness invariant: \<^verbatim>\<open>insert\<close> without a hint and
  \<^verbatim>\<open>operator[]\<close>, for a key that is not present, change the vector only by opening one
  slot for the new pair: the entries before the slot and the entries after it are the
  entries of the old vector, in their old order. \<^verbatim>\<open>erase(k)\<close> for a key that is present
  leaves exactly the entries whose key is not equivalent to \<open>k\<close>, in their old order:
  the old vector is the new one with one slot, holding an equivalent key, put back.
  The comparator is not touched.
\<close>

theorem insert_erase_frame:
  assumes "strict_weak_order (compare_key m)" and "sortedness m"
  shows "(\<not> present m k \<longrightarrow>
            lower_bound m k \<le> size_m m \<and>
            fst (insert_value m (k, v)) =
              m\<lparr>vec := take (lower_bound m k) (vec m) @ (k, v) # drop (lower_bound m k) (vec m)\<rparr> \<and>
            fst (subscript T0 m k) =
              m\<lparr>vec := take (lower_bound m k) (vec m) @ (k, T0) # drop (lower_bound m k) (vec m)\<rparr>) \<and>
         (present m k \<longrightarrow>
            fst (erase_key m k) = m\<lparr>vec := filter (\<lambda>e. ne_key m (fst e) k) (vec m)\<rparr> \<and>
            find_m m k < size_m m \<and> eq_key m (fst (vec m ! find_m m k)) k \<and>
            vec m = take (find_m m k) (vec (fst (erase_key m k))) @ vec m ! find_m m k #
                    drop (find_m m k) (vec (fst (erase_key m k))))"
proof (intro conjI impI)
  assume a: "\<not> present m k"
  let ?i = "lower_bound m k"
  show "?i \<le> size_m m" using lower_bound_le[OF assms] by (simp add: size_m_def)
  show "fst (insert_value m (k, v)) = m\<lparr>vec := take ?i (vec m) @ (k, v) # drop ?i (vec m)\<rparr>"
    using insert_value_absent[OF assms, of "(k, v)"] a by (simp add: vector_insert_def)
  show "fst (subscript T0 m k) = m\<lparr>vec := take ?i (vec m) @ (k, T0) # drop ?i (vec m)\<rparr>"
    using subscript_absent[OF assms a] by (simp add: vector_insert_def)
next
  assume p: "present m k"
  let ?i = "lower_bound m k"
  have i: "?i < length (vec m)" and e: "eq_key m (fst (vec m ! ?i)) k"
    using p by (simp_all add: present_lower_bound[OF assms])
  have f: "find_m m k = ?i" using erase_key_present(1)[OF assms i e] .
  have er: "erase_key m k = (m\<lparr>vec := take ?i (vec m) @ drop (Suc ?i) (vec m)\<rparr>, 1)"
    using erase_key_present(2)[OF assms i e] .
  show "fst (erase_key m k) = m\<lparr>vec := filter (\<lambda>e. ne_key m (fst e) k) (vec m)\<rparr>"
    using filter_others_vector_erase[OF assms i e] by (simp add: er)
  show "find_m m k < size_m m" using i by (simp add: f size_m_def)
  show "eq_key m (fst (vec m ! find_m m k)) k" using e by (simp add: f)
  show "vec m = take (find_m m k) (vec (fst (erase_key m k))) @ vec m ! find_m m k #
                drop (find_m m k) (vec (fst (erase_key m k)))"
    using i id_take_nth_drop[OF i] by (simp add: er f min_def)
qed

theorem insert_erase_frame_witness:
  "fst (insert_value \<lparr>vec = [(2::nat, 10::nat), (6, 50)], compare_key = (<)\<rparr> (4, 30))
     = \<lparr>vec = [(2, 10), (4, 30), (6, 50)], compare_key = (<)\<rparr> \<and>
   fst (subscript 0 \<lparr>vec = [(2::nat, 10::nat), (6, 50)], compare_key = (<)\<rparr> 4)
     = \<lparr>vec = [(2, 10), (4, 0), (6, 50)], compare_key = (<)\<rparr> \<and>
   fst (erase_key \<lparr>vec = [(2::nat, 10::nat), (4, 30), (6, 50)], compare_key = (<)\<rparr> 4)
     = \<lparr>vec = [(2, 10), (6, 50)], compare_key = (<)\<rparr>"
proof -
  let ?m = "\<lparr>vec = [(2::nat, 10::nat), (6, 50)], compare_key = (<)\<rparr>"
  let ?n = "\<lparr>vec = [(2::nat, 10::nat), (4, 30), (6, 50)], compare_key = (<)\<rparr>"
  have swo: "strict_weak_order (compare_key ?m)" by (simp add: strict_weak_order_nat_less)
  have srt: "sortedness ?m" by (simp add: sortedness_def)
  have swo': "strict_weak_order (compare_key ?n)" by (simp add: strict_weak_order_nat_less)
  have srt': "sortedness ?n" by (simp add: sortedness_def)
  have a: "\<not> present ?m 4" by (simp add: present_def eq_key_def ne_key_def)
  have p: "present ?n 4" by (simp add: present_def eq_key_def ne_key_def)
  have lb: "lower_bound ?m 4 = 1" by (simp add: stdmap_eval)
  note opened = insert_erase_frame[OF swo srt, of 4 30 0, THEN conjunct1, rule_format, OF a]
  note closed = insert_erase_frame[OF swo' srt', of 4, THEN conjunct2, rule_format, OF p]
  have "fst (insert_value ?m (4, 30)) = \<lparr>vec = [(2, 10), (4, 30), (6, 50)], compare_key = (<)\<rparr>"
    using opened by (simp add: lb)
  moreover have "fst (subscript 0 ?m 4) = \<lparr>vec = [(2, 10), (4, 0), (6, 50)], compare_key = (<)\<rparr>"
    using opened by (simp add: lb)
  moreover have "fst (erase_key ?n 4) = \<lparr>vec = [(2, 10), (6, 50)], compare_key = (<)\<rparr>"
    using closed by (simp add: ne_key_def)
  ultimately show ?thesis by blast
qed

section \<open>Hints\<close>

lemma emplace_hint_present:
  assumes swo: "strict_weak_order (compare_key m)" and srt: "sortedness m"
    and h: "hint \<noteq> end_m m" and p: "present m (fst val)"
  shows "emplace_hint m hint val = (m, hint)"
  using h p
  by (simp add: emplace_hint_def Let_def present_lower_bound[OF swo srt] end_m_def begin_m_def
      eq_key_def)

lemma emplace_hint_absent:
  assumes swo: "strict_weak_order (compare_key m)" and srt: "sortedness m"
    and h: "hint \<noteq> end_m m" and a: "\<not> present m (fst val)"
  shows "emplace_hint m hint val =
           (m\<lparr>vec := vector_insert (vec m) (lower_bound m (fst val)) val\<rparr>, lower_bound m (fst val))"
  using h a lower_bound_le[OF swo srt, of "fst val"]
  by (auto simp: emplace_hint_def Let_def present_lower_bound[OF swo srt] end_m_def eq_key_def)

text \<open>
  C9, as amended. In a map that satisfies the sortedness invariant, for a hint other
  than the end sentinel: when the key of the constructed entry is already present,
  \<^verbatim>\<open>emplace_hint\<close> inserts nothing and returns the position at the offset of the hint,
  whether or not that is the slot of the existing entry (which \<^verbatim>\<open>find\<close> returns); when
  the key is absent it inserts the entry at its sorted position and returns that
  position, whatever the hint.
\<close>

theorem emplace_hint_fallback_marker:
  assumes "strict_weak_order (compare_key m)" and "sortedness m" and "hint < end_m m"
  shows "(present m (fst val) \<longrightarrow>
            emplace_hint m hint val = (m, hint) \<and>
            find_m m (fst val) < end_m m \<and> eq_key m (fst (vec m ! find_m m (fst val))) (fst val)) \<and>
         (\<not> present m (fst val) \<longrightarrow>
            emplace_hint m hint val =
              (m\<lparr>vec := take (lower_bound m (fst val)) (vec m) @ val #
                          drop (lower_bound m (fst val)) (vec m)\<rparr>,
               lower_bound m (fst val)) \<and>
            sortedness (fst (emplace_hint m hint val)))"
proof (intro conjI impI)
  assume p: "present m (fst val)"
  show "emplace_hint m hint val = (m, hint)"
    using emplace_hint_present[OF assms(1,2) _ p, of hint] assms(3) by simp
  show "find_m m (fst val) < end_m m"
    using p by (simp add: find_m_present[OF assms(1,2)] present_lower_bound[OF assms(1,2)] end_m_def)
  show "eq_key m (fst (vec m ! find_m m (fst val))) (fst val)"
    using p by (simp add: find_m_present[OF assms(1,2)] present_lower_bound[OF assms(1,2)])
next
  assume a: "\<not> present m (fst val)"
  show e: "emplace_hint m hint val =
              (m\<lparr>vec := take (lower_bound m (fst val)) (vec m) @ val #
                          drop (lower_bound m (fst val)) (vec m)\<rparr>,
               lower_bound m (fst val))"
    using emplace_hint_absent[OF assms(1,2) _ a, of hint] assms(3)
    by (simp add: vector_insert_def)
  have "fst (emplace_hint m hint val) = fst (insert_value m val)"
    using hinted_insert_before_end(2)[of hint m val] assms(3)
    by (simp add: emplace_eq_insert_value)
  then show "sortedness (fst (emplace_hint m hint val))"
    using sortedness_insert_value[OF assms(1,2), of val] by simp
qed

theorem emplace_hint_fallback_marker_witness:
  "emplace_hint \<lparr>vec = [(2::nat, 10::nat), (4, 30), (6, 50)], compare_key = (<)\<rparr> 0 (6, 99)
     = (\<lparr>vec = [(2, 10), (4, 30), (6, 50)], compare_key = (<)\<rparr>, 0) \<and>
   find_m \<lparr>vec = [(2::nat, 10::nat), (4, 30), (6, 50)], compare_key = (<)\<rparr> 6 = 2 \<and>
   emplace_hint \<lparr>vec = [(2::nat, 10::nat), (4, 30), (6, 50)], compare_key = (<)\<rparr> 0 (5, 99)
     = (\<lparr>vec = [(2, 10), (4, 30), (5, 99), (6, 50)], compare_key = (<)\<rparr>, 2)"
proof -
  let ?m = "\<lparr>vec = [(2::nat, 10::nat), (4, 30), (6, 50)], compare_key = (<)\<rparr>"
  have swo: "strict_weak_order (compare_key ?m)" by (simp add: strict_weak_order_nat_less)
  have srt: "sortedness ?m" by (simp add: sortedness_def)
  have h: "0 < end_m ?m" by (simp add: end_m_def)
  have p: "present ?m (fst (6::nat, 99::nat))" by (simp add: present_def eq_key_def ne_key_def)
  have a: "\<not> present ?m (fst (5::nat, 99::nat))" by (simp add: present_def eq_key_def ne_key_def)
  have lb: "lower_bound ?m 5 = 2" by (simp add: stdmap_eval)
  note kept = emplace_hint_fallback_marker[OF swo srt h, of "(6, 99)", THEN conjunct1, rule_format, OF p]
  note added = emplace_hint_fallback_marker[OF swo srt h, of "(5, 99)", THEN conjunct2, rule_format, OF a]
  have "emplace_hint ?m 0 (6, 99) = (?m, 0)" using kept by blast
  moreover have "find_m ?m 6 = 2" by (simp add: stdmap_eval)
  moreover have "emplace_hint ?m 0 (5, 99)
     = (\<lparr>vec = [(2, 10), (4, 30), (5, 99), (6, 50)], compare_key = (<)\<rparr>, 2)"
    using added by (simp add: lb)
  ultimately show ?thesis by blast
qed

text \<open>
  C9, as stated, fails: the hint \<^verbatim>\<open>begin()\<close> is not a valid position for the key 6 in
  the sorted map with the keys 2 and 4 (6 does not come before 2), and yet
  \<^verbatim>\<open>emplace_hint\<close> inserts the entry, at its sorted position, and returns that position
  and not the offset of the hint.
\<close>

theorem emplace_hint_invalid_hint_inserts:
  "sortedness \<lparr>vec = [(2::nat, 10::nat), (4, 30)], compare_key = (<)\<rparr> \<and>
   \<not> valid_position \<lparr>vec = [(2::nat, 10::nat), (4, 30)], compare_key = (<)\<rparr> 0 (6, 50) \<and>
   emplace_hint \<lparr>vec = [(2::nat, 10::nat), (4, 30)], compare_key = (<)\<rparr> 0 (6, 50)
     = (\<lparr>vec = [(2, 10), (4, 30), (6, 50)], compare_key = (<)\<rparr>, 2)"
  by (simp add: valid_position_def stdmap_eval)

text \<open>
  A hint makes no difference to the contents when it is not the end sentinel, and
  when it is the end sentinel and a valid position for the entry.
\<close>

lemma hinted_insert_valid_end:
  assumes swo: "strict_weak_order (compare_key m)" and srt: "sortedness m"
    and v: "valid_position m (end_m m) x"
  shows "fst (insert_hint m (end_m m) x) = fst (insert_value m x)"
    and "fst (emplace_hint m (end_m m) x) = fst (emplace m x)"
proof -
  have "lower_bound m (fst x) = end_m m"
  proof (rule ccontr)
    assume "lower_bound m (fst x) \<noteq> end_m m"
    then have lt: "lower_bound m (fst x) < length (vec m)"
      using lower_bound_le[OF swo srt, of "fst x"] by (simp add: end_m_def)
    then have "length (vec m) - 1 < length (vec m)" "lower_bound m (fst x) \<le> length (vec m) - 1"
      by simp_all
    then have "\<not> compare_key m (fst (vec m ! (length (vec m) - 1))) (fst x)"
      using lower_bound_after[OF swo srt, of "fst x" "length (vec m) - 1"] by simp
    then show False
      using v lt by (auto simp: valid_position_def begin_m_def end_m_def compare_value_def)
  qed
  then show "fst (insert_hint m (end_m m) x) = fst (insert_value m x)"
    and "fst (emplace_hint m (end_m m) x) = fst (emplace m x)"
    by (simp_all add: insert_hint_def emplace_hint_def insert_value_def Let_def
        emplace_eq_insert_value)
qed

text \<open>
  C2. With the end sentinel as the hint, \<^verbatim>\<open>insert(hint, entry)\<close> and \<^verbatim>\<open>emplace_hint\<close>
  append the entry without looking at its key. In the sorted map with the keys 2 and
  4, the entry (2, 99) is appended: the key 2 is stored twice and the vector is no
  longer ascending, where \<^verbatim>\<open>insert(entry)\<close> and \<^verbatim>\<open>emplace\<close> leave the map as it is. The
  entry (3, 99) is appended after the key 4, where \<^verbatim>\<open>insert(entry)\<close> puts it in front.
\<close>

theorem hinted_insert_at_end_appends:
  "insert_hint \<lparr>vec = [(2::nat, 10::nat), (4, 30)], compare_key = (<)\<rparr>
       (end_m \<lparr>vec = [(2::nat, 10::nat), (4, 30)], compare_key = (<)\<rparr>) (2, 99)
     = (\<lparr>vec = [(2, 10), (4, 30), (2, 99)], compare_key = (<)\<rparr>, 2) \<and>
   emplace_hint \<lparr>vec = [(2::nat, 10::nat), (4, 30)], compare_key = (<)\<rparr>
       (end_m \<lparr>vec = [(2::nat, 10::nat), (4, 30)], compare_key = (<)\<rparr>) (2, 99)
     = (\<lparr>vec = [(2, 10), (4, 30), (2, 99)], compare_key = (<)\<rparr>, 2) \<and>
   insert_value \<lparr>vec = [(2::nat, 10::nat), (4, 30)], compare_key = (<)\<rparr> (2, 99)
     = (\<lparr>vec = [(2, 10), (4, 30)], compare_key = (<)\<rparr>, (0, False)) \<and>
   emplace \<lparr>vec = [(2::nat, 10::nat), (4, 30)], compare_key = (<)\<rparr> (2, 99)
     = (\<lparr>vec = [(2, 10), (4, 30)], compare_key = (<)\<rparr>, (0, False)) \<and>
   \<not> sortedness \<lparr>vec = [(2::nat, 10::nat), (4, 30), (2, 99)], compare_key = (<)\<rparr> \<and>
   insert_hint \<lparr>vec = [(2::nat, 10::nat), (4, 30)], compare_key = (<)\<rparr>
       (end_m \<lparr>vec = [(2::nat, 10::nat), (4, 30)], compare_key = (<)\<rparr>) (3, 99)
     = (\<lparr>vec = [(2, 10), (4, 30), (3, 99)], compare_key = (<)\<rparr>, 2) \<and>
   insert_value \<lparr>vec = [(2::nat, 10::nat), (4, 30)], compare_key = (<)\<rparr> (3, 99)
     = (\<lparr>vec = [(2, 10), (3, 99), (4, 30)], compare_key = (<)\<rparr>, (1, True))"
  by (simp add: stdmap_eval)

section \<open>Construction from a range\<close>

lemma set_vector_insert: "set (vector_insert xs pos x) = insert x (set xs)"
proof -
  have "set (take pos xs) \<union> set (drop pos xs) = set xs"
    by (metis append_take_drop_id set_append)
  then show ?thesis by (auto simp: vector_insert_def)
qed

lemma set_insert_value:
  assumes swo: "strict_weak_order (compare_key m)" and srt: "sortedness m"
  shows "set (vec (fst (insert_value m x))) =
           (if present m (fst x) then set (vec m) else insert x (set (vec m)))"
proof (cases "present m (fst x)")
  case True
  then have "insert_value m x = (m, (lower_bound m (fst x), False))"
    by (simp add: insert_value_def Let_def present_lower_bound[OF swo srt] end_m_def eq_key_def)
  then show ?thesis using True by simp
next
  case False
  then show ?thesis
    using insert_value_absent[OF swo srt False] by (simp add: set_vector_insert)
qed

lemma insert_range_keeps:
  "strict_weak_order (compare_key m) \<Longrightarrow> sortedness m \<Longrightarrow> e \<in> set (vec m) \<Longrightarrow>
   e \<in> set (vec (insert_range m xs))"
proof (induction xs arbitrary: m)
  case Nil
  then show ?case by simp
next
  case (Cons x xs)
  have "e \<in> set (vec (fst (insert_value m x)))"
    using Cons.prems by (simp add: set_insert_value)
  moreover have "strict_weak_order (compare_key (fst (insert_value m x)))"
    using Cons.prems by simp
  moreover have "sortedness (fst (insert_value m x))"
    using Cons.prems by (simp add: sortedness_insert_value)
  ultimately show ?case using Cons.IH[of "fst (insert_value m x)"] by simp
qed

lemma insert_range_first_occurrence:
  "strict_weak_order (compare_key m) \<Longrightarrow> sortedness m \<Longrightarrow> \<not> present m (fst x) \<Longrightarrow>
   \<forall>y \<in> set ys. ne_key m (fst y) (fst x) \<Longrightarrow>
   x \<in> set (vec (insert_range m (ys @ x # zs)))"
proof (induction ys arbitrary: m)
  case Nil
  let ?m = "fst (insert_value m x)"
  have "x \<in> set (vec ?m)" using Nil.prems by (simp add: set_insert_value)
  moreover have "strict_weak_order (compare_key ?m)" using Nil.prems by simp
  moreover have "sortedness ?m" using Nil.prems by (simp add: sortedness_insert_value)
  ultimately show ?case using insert_range_keeps[of ?m x zs] by simp
next
  case (Cons y ys)
  let ?m = "fst (insert_value m y)"
  have c: "compare_key ?m = compare_key m" by simp
  have swo: "strict_weak_order (compare_key ?m)" using Cons.prems by simp
  have srt: "sortedness ?m" using Cons.prems by (simp add: sortedness_insert_value)
  have sub: "set (vec ?m) \<subseteq> insert y (set (vec m))"
    using Cons.prems(1,2) by (auto simp: set_insert_value split: if_splits)
  have ny: "ne_key m (fst y) (fst x)" using Cons.prems(4) by simp
  have "\<not> present ?m (fst x)"
  proof
    assume "present ?m (fst x)"
    then obtain e where "e \<in> set (vec ?m)" "eq_key m (fst e) (fst x)"
      by (auto simp: present_def eq_key_def ne_key_def c)
    then show False
      using sub ny Cons.prems(3) by (auto simp: present_def eq_key_def)
  qed
  moreover have "\<forall>z \<in> set ys. ne_key ?m (fst z) (fst x)"
    using Cons.prems(4) by (simp add: ne_key_def c)
  ultimately show ?case using Cons.IH[OF swo srt] by simp
qed

lemma insert_range_from_input:
  "strict_weak_order (compare_key m) \<Longrightarrow> sortedness m \<Longrightarrow>
   set (vec (insert_range m xs)) \<subseteq> set (vec m) \<union> set xs"
proof (induction xs arbitrary: m)
  case Nil
  then show ?case by simp
next
  case (Cons x xs)
  let ?m = "fst (insert_value m x)"
  have "strict_weak_order (compare_key ?m)" using Cons.prems by simp
  moreover have "sortedness ?m" using Cons.prems by (simp add: sortedness_insert_value)
  ultimately have "set (vec (insert_range ?m xs)) \<subseteq> set (vec ?m) \<union> set xs"
    by (rule Cons.IH)
  moreover have "set (vec ?m) \<subseteq> insert x (set (vec m))"
    using Cons.prems by (auto simp: set_insert_value split: if_splits)
  ultimately show ?case by auto
qed

text \<open>
  What \<^verbatim>\<open>insert(first, last)\<close> on an empty map establishes: a sorted container that
  holds only entries of the input and, for every key, the first entry of the input
  with that key.
\<close>

lemma insert_range_first_occurrence_wins:
  assumes "strict_weak_order cmp"
  shows "sortedness (insert_range (stdmap_empty cmp) xs)"
    and "set (vec (insert_range (stdmap_empty cmp) xs)) \<subseteq> set xs"
    and "xs = ys @ x # zs \<Longrightarrow> \<forall>y \<in> set ys. cmp (fst y) (fst x) \<or> cmp (fst x) (fst y) \<Longrightarrow>
         x \<in> set (vec (insert_range (stdmap_empty cmp) xs))"
proof -
  let ?e = "stdmap_empty cmp :: ('a, 'b) stdmap"
  have swo: "strict_weak_order (compare_key ?e)" using assms by (simp add: stdmap_empty_def)
  have srt: "sortedness ?e" by (simp add: stdmap_empty_def sortedness_def)
  show "sortedness (insert_range ?e xs)"
    using insert_range_invariant[OF swo srt] by blast
  show "set (vec (insert_range ?e xs)) \<subseteq> set xs"
    using insert_range_from_input[OF swo srt, of xs] by (simp add: stdmap_empty_def)
  assume xs: "xs = ys @ x # zs" and first: "\<forall>y \<in> set ys. cmp (fst y) (fst x) \<or> cmp (fst x) (fst y)"
  have "\<not> present ?e (fst x)" by (simp add: present_def stdmap_empty_def)
  moreover have "\<forall>y \<in> set ys. ne_key ?e (fst y) (fst x)"
    using first by (simp add: ne_key_def stdmap_empty_def)
  ultimately show "x \<in> set (vec (insert_range ?e xs))"
    using insert_range_first_occurrence[OF swo srt] xs by blast
qed

text \<open>
  C1. The constructor from an iterator range, the constructor from an initializer
  list and the assignment of an initializer list hand the input to the vector as it
  is: for the input (4, 40), (2, 20), (4, 99) the container iterates 4, 2, 4, which is
  not ascending and holds the key 4 twice. Inserting the same input with
  \<^verbatim>\<open>insert(first, last)\<close> into an empty map gives (2, 20), (4, 40).
\<close>

theorem range_constructor_copies_the_range:
  "vec (stdmap_range [(4::nat, 40::nat), (2, 20), (4, 99)] (<)) = [(4, 40), (2, 20), (4, 99)] \<and>
   vec (stdmap_init_list [(4::nat, 40::nat), (2, 20), (4, 99)] (<)) = [(4, 40), (2, 20), (4, 99)] \<and>
   vec (assign_init_list (stdmap_empty (<)) [(4::nat, 40::nat), (2, 20), (4, 99)])
     = [(4, 40), (2, 20), (4, 99)] \<and>
   \<not> sortedness (stdmap_range [(4::nat, 40::nat), (2, 20), (4, 99)] (<)) \<and>
   \<not> sortedness (stdmap_init_list [(4::nat, 40::nat), (2, 20), (4, 99)] (<)) \<and>
   \<not> sortedness (assign_init_list (stdmap_empty (<)) [(4::nat, 40::nat), (2, 20), (4, 99)]) \<and>
   vec (insert_range (stdmap_empty (<)) [(4::nat, 40::nat), (2, 20), (4, 99)]) = [(2, 20), (4, 40)]"
  by (simp add: stdmap_eval)

end
